theory Spec2Isabelle
  imports Main "HOL-Library.Char_ord" "HOL-Library.List_Lexorder" "HOL-Library.Multiset"
begin

section \<open>The workflow importer (n8n-setup-scripts/import-to-db.py)\<close>

text \<open>
  The script discovers the files \<^verbatim>\<open>*-workflow.json\<close> of one directory, loads each as JSON
  and inserts one row per file into the table \<^verbatim>\<open>workflow\<close> of an SQLite database file.
  The embedding follows the script function by function. Everything the script does to
  its surroundings (printing, asking whether a path exists, opening files, talking to the
  database) is recorded in a trace kept in an explicit world state.
\<close>

subsection \<open>Python values read from JSON\<close>

text \<open>
  What \<^verbatim>\<open>json.load\<close> returns: \<^verbatim>\<open>None\<close>, \<^verbatim>\<open>bool\<close>, \<^verbatim>\<open>int\<close> (unbounded), \<^verbatim>\<open>str\<close>,
  \<^verbatim>\<open>list\<close> and \<^verbatim>\<open>dict\<close> with string keys, in insertion order. JSON numbers with a fraction or
  an exponent (Python floats) are not part of this model; texts are Isabelle strings.
\<close>

datatype json =
    JNull
  | JBool bool
  | JInt int
  | JString string
  | JArray "json list"
  | JObject "(string \<times> json) list"

text \<open>The exceptions that can reach one of the two \<^verbatim>\<open>except Exception\<close> handlers.\<close>

datatype exn =
    OSError
  | JSONDecodeError
  | AttributeError
  | OperationalError
  | InterfaceError
  | OverflowError

text \<open>\<^verbatim>\<open>d.get(k, default)\<close> on a dict.\<close>

definition dict_get :: "(string \<times> json) list \<Rightarrow> string \<Rightarrow> json \<Rightarrow> json" where
  "dict_get d k dflt = (case map_of d k of None \<Rightarrow> dflt | Some v \<Rightarrow> v)"

text \<open>Python truth value of a loaded JSON value, as used by \<^verbatim>\<open>1 if active else 0\<close>.\<close>

fun truthy :: "json \<Rightarrow> bool" where
  "truthy JNull = False"
| "truthy (JBool b) = b"
| "truthy (JInt i) = (i \<noteq> 0)"
| "truthy (JString s) = (s \<noteq> [])"
| "truthy (JArray vs) = (vs \<noteq> [])"
| "truthy (JObject kvs) = (kvs \<noteq> [])"

subsection \<open>\<^verbatim>\<open>json.dumps\<close> with its default arguments\<close>

text \<open>
  Separators are \<^verbatim>\<open>', '\<close> and \<^verbatim>\<open>': '\<close>; \<^verbatim>\<open>ensure_ascii\<close> is on, so every character outside
  the printable ASCII range, the double quote and the backslash are escaped.
\<close>

definition digit_char :: "nat \<Rightarrow> char" where
  "digit_char n = char_of (48 + n)"

fun digits :: "nat \<Rightarrow> string" where
  "digits n = (if n < 10 then [digit_char n] else digits (n div 10) @ [digit_char (n mod 10)])"

declare digits.simps [simp del]

definition int_repr :: "int \<Rightarrow> string" where
  "int_repr i = (if i < 0 then CHR ''-'' # digits (nat (- i)) else digits (nat i))"

definition hex_char :: "nat \<Rightarrow> char" where
  "hex_char n = (if n < 10 then char_of (48 + n) else char_of (87 + n))"

definition escape_char :: "char \<Rightarrow> string" where
  "escape_char c =
     (if c = CHR 0x22 then [CHR 0x5C, CHR 0x22]
      else if c = CHR 0x5C then [CHR 0x5C, CHR 0x5C]
      else if c = CHR 0x0A then [CHR 0x5C, CHR ''n'']
      else if c = CHR 0x0D then [CHR 0x5C, CHR ''r'']
      else if c = CHR 0x09 then [CHR 0x5C, CHR ''t'']
      else if c = CHR 0x08 then [CHR 0x5C, CHR ''b'']
      else if c = CHR 0x0C then [CHR 0x5C, CHR ''f'']
      else if 32 \<le> (of_char c :: nat) \<and> (of_char c :: nat) \<le> 126 then [c]
      else [CHR 0x5C, CHR ''u'', CHR ''0'', CHR ''0'',
            hex_char ((of_char c :: nat) div 16), hex_char ((of_char c :: nat) mod 16)])"

definition dumps_string :: "string \<Rightarrow> string" where
  "dumps_string s = CHR 0x22 # concat (map escape_char s) @ [CHR 0x22]"

fun join :: "string \<Rightarrow> string list \<Rightarrow> string" where
  "join sep [] = []"
| "join sep [x] = x"
| "join sep (x # y # ys) = x @ sep @ join sep (y # ys)"

fun json_dumps :: "json \<Rightarrow> string" where
  "json_dumps JNull = ''null''"
| "json_dumps (JBool b) = (if b then ''true'' else ''false'')"
| "json_dumps (JInt i) = int_repr i"
| "json_dumps (JString s) = dumps_string s"
| "json_dumps (JArray vs) = ''['' @ join '', '' (map json_dumps vs) @ '']''"
| "json_dumps (JObject kvs) =
     ''{'' @ join '', '' (map (\<lambda>(k, v). dumps_string k @ '': '' @ json_dumps v) kvs) @ ''}''"

subsection \<open>\<^verbatim>\<open>json.loads\<close>\<close>

text \<open>
  The decoder of Python's \<^verbatim>\<open>json\<close> module, for texts whose value lies in the model above:
  it returns \<open>None\<close> where Python raises, and also for a number with a fraction or an
  exponent, for \<^verbatim>\<open>NaN\<close> and \<^verbatim>\<open>Infinity\<close>, and for a \<^verbatim>\<open>\u\<close> escape above \<^verbatim>\<open>00ff\<close>. White space is
  skipped where the decoder skips it; control characters are refused inside strings.
\<close>

definition is_ws :: "char \<Rightarrow> bool" where
  "is_ws c = (c = CHR '' '' \<or> c = CHR 0x09 \<or> c = CHR 0x0A \<or> c = CHR 0x0D)"

definition skip_ws :: "string \<Rightarrow> string" where
  "skip_ws s = dropWhile is_ws s"

definition is_digit :: "char \<Rightarrow> bool" where
  "is_digit c = (48 \<le> (of_char c :: nat) \<and> (of_char c :: nat) \<le> 57)"

definition digit_val :: "char \<Rightarrow> nat" where
  "digit_val c = of_char c - 48"

definition hex_val :: "char \<Rightarrow> nat option" where
  "hex_val c =
     (let n = (of_char c :: nat)
      in if 48 \<le> n \<and> n \<le> 57 then Some (n - 48)
         else if 97 \<le> n \<and> n \<le> 102 then Some (n - 87)
         else if 65 \<le> n \<and> n \<le> 70 then Some (n - 55)
         else None)"

definition unescape :: "char \<Rightarrow> char option" where
  "unescape e =
     (if e = CHR 0x22 then Some (CHR 0x22)
      else if e = CHR 0x5C then Some (CHR 0x5C)
      else if e = CHR ''/'' then Some (CHR ''/'')
      else if e = CHR ''b'' then Some (CHR 0x08)
      else if e = CHR ''f'' then Some (CHR 0x0C)
      else if e = CHR ''n'' then Some (CHR 0x0A)
      else if e = CHR ''r'' then Some (CHR 0x0D)
      else if e = CHR ''t'' then Some (CHR 0x09)
      else None)"

definition hex4 :: "string \<Rightarrow> nat option" where
  "hex4 s =
     (case map hex_val s of
        [Some a, Some b, Some c, Some d] \<Rightarrow> Some (((a * 16 + b) * 16 + c) * 16 + d)
      | _ \<Rightarrow> None)"

definition cons_result :: "'a \<Rightarrow> ('a list \<times> string) option \<Rightarrow> ('a list \<times> string) option" where
  "cons_result x res = (case res of None \<Rightarrow> None | Some (xs, r) \<Rightarrow> Some (x # xs, r))"

text \<open>\<^verbatim>\<open>scanstring\<close>, after the opening quote: the string and the rest of the text.\<close>

fun scanstring :: "string \<Rightarrow> (string \<times> string) option" where
  "scanstring [] = None"
| "scanstring (c # cs) =
     (if c = CHR 0x22 then Some ([], cs)
      else if c = CHR 0x5C then
        (case cs of
           [] \<Rightarrow> None
         | e # cs' \<Rightarrow>
             if e = CHR ''u'' then
               (case hex4 (take 4 cs') of
                  None \<Rightarrow> None
                | Some n \<Rightarrow> if n < 256 then cons_result (char_of n) (scanstring (drop 4 cs'))
                            else None)
             else
               (case unescape e of
                  None \<Rightarrow> None
                | Some ch \<Rightarrow> cons_result ch (scanstring cs')))
      else if (of_char c :: nat) < 32 then None
      else cons_result c (scanstring cs))"

text \<open>
  An integer literal: an optional minus sign, then \<^verbatim>\<open>0\<close> or a digit other than \<^verbatim>\<open>0\<close> followed
  by digits. A following \<^verbatim>\<open>.\<close>, \<^verbatim>\<open>e\<close> or \<^verbatim>\<open>E\<close> makes the text a float or an error.
\<close>

definition scan_nat :: "string \<Rightarrow> (nat \<times> string) option" where
  "scan_nat s =
     (case s of
        [] \<Rightarrow> None
      | c # cs \<Rightarrow>
          if c = CHR ''0'' then Some (0, cs)
          else if is_digit c then
            Some (foldl (\<lambda>a d. 10 * a + digit_val d) (digit_val c) (takeWhile is_digit cs),
                  dropWhile is_digit cs)
          else None)"

definition scan_int :: "string \<Rightarrow> (int \<times> string) option" where
  "scan_int s =
     (case (case s of
              [] \<Rightarrow> None
            | c # cs \<Rightarrow>
                if c = CHR ''-'' then map_option (\<lambda>(n, r). (- int n, r)) (scan_nat cs)
                else map_option (\<lambda>(n, r). (int n, r)) (scan_nat s)) of
        None \<Rightarrow> None
      | Some (i, r) \<Rightarrow>
          (case r of
             [] \<Rightarrow> Some (i, r)
           | c # cs \<Rightarrow> if c = CHR ''.'' \<or> c = CHR ''e'' \<or> c = CHR ''E'' then None
                       else Some (i, r)))"

text \<open>
  A dict is built from the pairs in order of appearance: a repeated key keeps its first
  position and takes the last value.
\<close>

fun dict_set :: "string \<Rightarrow> json \<Rightarrow> (string \<times> json) list \<Rightarrow> (string \<times> json) list" where
  "dict_set k v [] = [(k, v)]"
| "dict_set k v (p # d) = (if fst p = k then (k, v) # d else p # dict_set k v d)"

definition dict_of :: "(string \<times> json) list \<Rightarrow> (string \<times> json) list" where
  "dict_of pairs = foldl (\<lambda>d p. dict_set (fst p) (snd p) d) [] pairs"

text \<open>
  \<^verbatim>\<open>scan_once\<close> with the array and the object decoder. The first argument bounds the depth
  of the recursion; \<open>json_loads\<close> supplies a bound that grows with the length of the text.
\<close>

fun scan_once :: "nat \<Rightarrow> string \<Rightarrow> (json \<times> string) option"
  and parse_elements :: "nat \<Rightarrow> string \<Rightarrow> (json list \<times> string) option"
  and parse_members :: "nat \<Rightarrow> string \<Rightarrow> ((string \<times> json) list \<times> string) option"
where
  "scan_once 0 s = None"
| "scan_once (Suc n) s =
     (case s of
        [] \<Rightarrow> None
      | c # cs \<Rightarrow>
          if c = CHR 0x22 then map_option (\<lambda>(x, r). (JString x, r)) (scanstring cs)
          else if c = CHR ''{'' then
            (case skip_ws cs of
               [] \<Rightarrow> None
             | c' # r \<Rightarrow>
                 if c' = CHR ''}'' then Some (JObject [], r)
                 else map_option (\<lambda>(ps, r'). (JObject (dict_of ps), r'))
                        (parse_members n (c' # r)))
          else if c = CHR ''['' then
            (case skip_ws cs of
               [] \<Rightarrow> None
             | c' # r \<Rightarrow>
                 if c' = CHR '']'' then Some (JArray [], r)
                 else map_option (\<lambda>(vs, r'). (JArray vs, r')) (parse_elements n (c' # r)))
          else if take 4 s = ''null'' then Some (JNull, drop 4 s)
          else if take 4 s = ''true'' then Some (JBool True, drop 4 s)
          else if take 5 s = ''false'' then Some (JBool False, drop 5 s)
          else map_option (\<lambda>(i, r). (JInt i, r)) (scan_int s))"
| "parse_elements 0 s = None"
| "parse_elements (Suc n) s =
     (case scan_once n s of
        None \<Rightarrow> None
      | Some (v, r) \<Rightarrow>
          (case skip_ws r of
             [] \<Rightarrow> None
           | c # r' \<Rightarrow>
               if c = CHR '']'' then Some ([v], r')
               else if c = CHR '','' then cons_result v (parse_elements n (skip_ws r'))
               else None))"
| "parse_members 0 s = None"
| "parse_members (Suc n) s =
     (case s of
        [] \<Rightarrow> None
      | q # cs \<Rightarrow>
          if q \<noteq> CHR 0x22 then None
          else
            (case scanstring cs of
               None \<Rightarrow> None
             | Some (k, r) \<Rightarrow>
                 (case skip_ws r of
                    [] \<Rightarrow> None
                  | c # r1 \<Rightarrow>
                      if c \<noteq> CHR '':'' then None
                      else
                        (case scan_once n (skip_ws r1) of
                           None \<Rightarrow> None
                         | Some (v, r2) \<Rightarrow>
                             (case skip_ws r2 of
                                [] \<Rightarrow> None
                              | c' # r3 \<Rightarrow>
                                  if c' = CHR ''}'' then Some ([(k, v)], r3)
                                  else if c' = CHR '','' then
                                    cons_result (k, v) (parse_members n (skip_ws r3))
                                  else None)))))"

text \<open>\<^verbatim>\<open>json.loads\<close>: one value, with white space around it and nothing after it.\<close>

definition json_loads :: "string \<Rightarrow> json option" where
  "json_loads s =
     (case scan_once (2 * length s + 2) (skip_ws s) of
        None \<Rightarrow> None
      | Some (v, r) \<Rightarrow> if skip_ws r = [] then Some v else None)"

text \<open>A Python value: the keys of every dict in it are distinct.\<close>

fun wf_json :: "json \<Rightarrow> bool" where
  "wf_json (JArray vs) = list_all wf_json vs"
| "wf_json (JObject d) = (distinct (map fst d) \<and> list_all (\<lambda>p. wf_json (snd p)) d)"
| "wf_json v = True"

text \<open>What may follow an integer literal for it to end there and be an integer.\<close>

definition number_end :: "string \<Rightarrow> bool" where
  "number_end r =
     (case r of
        [] \<Rightarrow> True
      | c # cs \<Rightarrow> \<not> is_digit c \<and> c \<noteq> CHR ''.'' \<and> c \<noteq> CHR ''e'' \<and> c \<noteq> CHR ''E'')"

subsection \<open>The database file\<close>

text \<open>
  A value bound to an SQL parameter. The \<^verbatim>\<open>sqlite3\<close> module binds \<^verbatim>\<open>None\<close>, \<^verbatim>\<open>int\<close>
  (64-bit; \<^verbatim>\<open>bool\<close> is an \<^verbatim>\<open>int\<close>) and \<^verbatim>\<open>str\<close>, and raises for a list or a dict.
\<close>

datatype sqlval = SqlNull | SqlInt int | SqlText string

fun sqlite_bind :: "json \<Rightarrow> exn + sqlval" where
  "sqlite_bind JNull = Inr SqlNull"
| "sqlite_bind (JBool b) = Inr (SqlInt (if b then 1 else 0))"
| "sqlite_bind (JInt i) =
     (if - (2 ^ 63) \<le> i \<and> i < 2 ^ 63 then Inr (SqlInt i) else Inl OverflowError)"
| "sqlite_bind (JString s) = Inr (SqlText s)"
| "sqlite_bind (JArray vs) = Inl InterfaceError"
| "sqlite_bind (JObject kvs) = Inl InterfaceError"

text \<open>One row of the table \<^verbatim>\<open>workflow\<close>; timestamps are abstract instants.\<close>

record db_row =
  row_id :: nat
  row_name :: sqlval
  row_nodes :: string
  row_connections :: string
  row_active :: int
  row_createdAt :: nat
  row_updatedAt :: nat

text \<open>
  A database file. The script never creates the table, so a database may lack it:
  \<open>workflow = None\<close>, and then the INSERT raises.
\<close>

record database =
  workflow :: "db_row list option"

definition next_rowid :: "db_row list \<Rightarrow> nat" where
  "next_rowid rows = Suc (fold max (map row_id rows) 0)"

text \<open>
  \<^verbatim>\<open>cursor.execute('INSERT INTO workflow (name, nodes, connections, active, createdAt,
  updatedAt) VALUES (?, ?, ?, ?, ?, ?)', ...)\<close>: the statement is prepared first (no such
  table), then the parameters are bound; the result is the database with the new row and
  \<^verbatim>\<open>cursor.lastrowid\<close>.
\<close>

definition execute_insert ::
  "database \<Rightarrow> json \<Rightarrow> string \<Rightarrow> string \<Rightarrow> int \<Rightarrow> nat \<Rightarrow> exn + (database \<times> nat)" where
  "execute_insert db workflow_name nodes connections active now =
     (case workflow db of
        None \<Rightarrow> Inl OperationalError
      | Some rows \<Rightarrow>
          (case sqlite_bind workflow_name of
             Inl e \<Rightarrow> Inl e
           | Inr n \<Rightarrow>
               Inr (db\<lparr>workflow := Some (rows @
                      [\<lparr>row_id = next_rowid rows, row_name = n, row_nodes = nodes,
                        row_connections = connections, row_active = active,
                        row_createdAt = now, row_updatedAt = now\<rparr>])\<rparr>,
                    next_rowid rows)))"

subsection \<open>The world: files, database files, clock and trace\<close>

datatype message =
    MsgRule
  | MsgTitle
  | MsgNoWorkflowFiles
  | MsgFound nat
  | MsgN8nDatabaseNotFound string
  | MsgStartN8nFirst
  | MsgUsingDatabase string
  | MsgDatabaseNotFound string
  | MsgMakeSureStarted
  | MsgImported json nat
  | MsgErrorImporting exn
  | MsgFailedToProcess string exn
  | MsgImportComplete nat
  | MsgNextSteps
  | MsgStep nat

datatype event =
    Print message
  | PathExists string
  | OpenFile string
  | Connect string
  | Execute string
  | Commit string
  | Close string

text \<open>
  \<open>workflows_dir\<close> lists the directory \<^verbatim>\<open>n8n-workflows\<close> in the order the operating system
  gives it: each entry is a file name with what \<^verbatim>\<open>open\<close> and \<^verbatim>\<open>json.load\<close> do on that
  file (the value, or the exception raised). \<open>db_files\<close> maps a path to the database file
  there, if one exists.
\<close>

record world =
  home :: string
  workflows_dir :: "(string \<times> (exn + json)) list"
  db_files :: "string \<rightharpoonup> database"
  clock :: nat
  trace :: "event list"

definition emit :: "event \<Rightarrow> world \<Rightarrow> world" where
  "emit e w = w\<lparr>trace := trace w @ [e]\<rparr>"

definition print :: "message \<Rightarrow> world \<Rightarrow> world" where
  "print m w = emit (Print m) w"

definition N8N_HOME :: "world \<Rightarrow> string" where
  "N8N_HOME w = home w @ ''/.n8n''"

definition N8N_DB :: "world \<Rightarrow> string" where
  "N8N_DB w = N8N_HOME w @ ''/database.sqlite''"

definition os_path_exists :: "string \<Rightarrow> world \<Rightarrow> bool \<times> world" where
  "os_path_exists p w = (db_files w p \<noteq> None, emit (PathExists p) w)"

text \<open>\<^verbatim>\<open>sqlite3.connect\<close> opens the file, creating an empty database when there is none.\<close>

definition sqlite3_connect :: "string \<Rightarrow> world \<Rightarrow> database \<times> world" where
  "sqlite3_connect p w =
     (case db_files w p of
        Some db \<Rightarrow> (db, emit (Connect p) w)
      | None \<Rightarrow> (\<lparr>workflow = None\<rparr>,
                 emit (Connect p) (w\<lparr>db_files := (db_files w)(p \<mapsto> \<lparr>workflow = None\<rparr>)\<rparr>)))"

definition conn_commit :: "string \<Rightarrow> database \<Rightarrow> world \<Rightarrow> world" where
  "conn_commit p db w = emit (Commit p) (w\<lparr>db_files := (db_files w)(p \<mapsto> db)\<rparr>)"

text \<open>\<^verbatim>\<open>datetime.now()\<close>: reads the clock; the tick stands for the time that passes.\<close>

definition datetime_now :: "world \<Rightarrow> nat \<times> world" where
  "datetime_now w = (clock w, w\<lparr>clock := Suc (clock w)\<rparr>)"

subsection \<open>\<^verbatim>\<open>load_workflow\<close>\<close>

definition load_workflow :: "string \<times> (exn + json) \<Rightarrow> world \<Rightarrow> (exn + json) \<times> world" where
  "load_workflow filepath w = (snd filepath, emit (OpenFile (fst filepath)) w)"

subsection \<open>\<^verbatim>\<open>import_workflow_to_db\<close>\<close>

text \<open>The body of the \<^verbatim>\<open>try\<close> block: \<open>Inl e\<close> when it raises \<open>e\<close>.\<close>

definition try_import :: "string \<Rightarrow> json \<Rightarrow> world \<Rightarrow> (exn + unit) \<times> world" where
  "try_import db_path workflow_data w0 =
     (let (db, w1) = sqlite3_connect db_path w0;
          (now, w2) = datetime_now w1
      in case workflow_data of
           JObject d \<Rightarrow>
             (let workflow_name = dict_get d ''name'' (JString ''Untitled Workflow'');
                  nodes = json_dumps (dict_get d ''nodes'' (JArray []));
                  connections = json_dumps (dict_get d ''connections'' (JObject []));
                  active = dict_get d ''active'' (JBool False);
                  w3 = emit (Execute db_path) w2
              in case execute_insert db workflow_name nodes connections
                        (if truthy active then 1 else 0) now of
                   Inl e \<Rightarrow> (Inl e, w3)
                 | Inr (db', workflow_id) \<Rightarrow>
                     (Inr (),
                      emit (Close db_path)
                        (print (MsgImported workflow_name workflow_id)
                           (conn_commit db_path db' w3))))
         | _ \<Rightarrow> (Inl AttributeError, w2))"

definition import_workflow_to_db :: "string \<Rightarrow> json \<Rightarrow> world \<Rightarrow> bool \<times> world" where
  "import_workflow_to_db db_path workflow_data w =
     (let (ex, w1) = os_path_exists db_path w
      in if \<not> ex then
           (False, print MsgMakeSureStarted (print (MsgDatabaseNotFound db_path) w1))
         else
           (case try_import db_path workflow_data w1 of
              (Inl e, w2) \<Rightarrow> (False, print (MsgErrorImporting e) w2)
            | (Inr u, w2) \<Rightarrow> (True, w2)))"

subsection \<open>\<^verbatim>\<open>main\<close>\<close>

text \<open>\<^verbatim>\<open>glob('*-workflow.json')\<close>: the name ends with the fixed suffix.\<close>

definition glob_match :: "string \<Rightarrow> bool" where
  "glob_match fname = (drop (length fname - 14) fname = ''-workflow.json'')"

definition discover :: "world \<Rightarrow> (string \<times> (exn + json)) list" where
  "discover w = sort_key fst (filter (\<lambda>f. glob_match (fst f)) (workflows_dir w))"

text \<open>The body of the \<^verbatim>\<open>for\<close> loop of \<^verbatim>\<open>main\<close>, with its \<^verbatim>\<open>try\<close>/\<^verbatim>\<open>except\<close>.\<close>

definition loop_body ::
  "string \<Rightarrow> string \<times> (exn + json) \<Rightarrow> nat \<Rightarrow> world \<Rightarrow> nat \<times> world" where
  "loop_body db_path workflow_file imported_count w =
     (case load_workflow workflow_file w of
        (Inl e, w1) \<Rightarrow>
          (imported_count, print (MsgFailedToProcess (fst workflow_file) e) w1)
      | (Inr workflow_data, w1) \<Rightarrow>
          (case import_workflow_to_db db_path workflow_data w1 of
             (ok, w2) \<Rightarrow> (if ok then imported_count + 1 else imported_count, w2)))"

fun import_each ::
  "string \<Rightarrow> (string \<times> (exn + json)) list \<Rightarrow> nat \<Rightarrow> world \<Rightarrow> nat \<times> world" where
  "import_each db_path [] imported_count w = (imported_count, w)"
| "import_each db_path (workflow_file # rest) imported_count w =
     (case loop_body db_path workflow_file imported_count w of
        (imported_count', w') \<Rightarrow> import_each db_path rest imported_count' w')"

definition print_all :: "message list \<Rightarrow> world \<Rightarrow> world" where
  "print_all ms w = fold print ms w"

definition main :: "world \<Rightarrow> int \<times> world" where
  "main w0 =
     (let w1 = print_all [MsgRule, MsgTitle, MsgRule] w0;
          workflow_files = discover w1
      in if workflow_files = [] then (1, print MsgNoWorkflowFiles w1)
         else
           (let w2 = print (MsgFound (length workflow_files)) w1;
                (ex, w3) = os_path_exists (N8N_DB w2) w2
            in if \<not> ex then
                 (1, print_all [MsgN8nDatabaseNotFound (N8N_DB w3), MsgStartN8nFirst] w3)
               else
                 (let w4 = print (MsgUsingDatabase (N8N_DB w3)) w3;
                      (imported_count, w5) = import_each (N8N_DB w4) workflow_files 0 w4
                  in (0, print_all [MsgRule, MsgImportComplete imported_count, MsgRule,
                                    MsgNextSteps, MsgStep 1, MsgStep 2, MsgStep 3, MsgStep 4]
                           w5))))"

section \<open>Observations on a run\<close>

text \<open>The events that \<open>main\<close> adds to the trace of the world it starts in.\<close>

definition run_events :: "world \<Rightarrow> event list" where
  "run_events w = drop (length (trace w)) (trace (snd (main w)))"

text \<open>The files opened, in the order of opening.\<close>

fun opened_of :: "event \<Rightarrow> string list" where
  "opened_of (OpenFile f) = [f]"
| "opened_of _ = []"

definition opened_files :: "event list \<Rightarrow> string list" where
  "opened_files t = concat (map opened_of t)"

text \<open>
  The per-file error messages: the one of the handler in \<^verbatim>\<open>main\<close>, the one of the handler
  in \<^verbatim>\<open>import_workflow_to_db\<close>, and the first line of its message for a missing database.
\<close>

fun is_error_message :: "event \<Rightarrow> bool" where
  "is_error_message (Print (MsgFailedToProcess f e)) = True"
| "is_error_message (Print (MsgErrorImporting e)) = True"
| "is_error_message (Print (MsgDatabaseNotFound p)) = True"
| "is_error_message _ = False"

fun is_exists_check :: "event \<Rightarrow> bool" where
  "is_exists_check (PathExists p) = True"
| "is_exists_check _ = False"

text \<open>Opening a file and committing an insertion: the two steps of processing a file.\<close>

fun is_step :: "event \<Rightarrow> bool" where
  "is_step (OpenFile f) = True"
| "is_step (Commit p) = True"
| "is_step _ = False"

fun is_db_access :: "event \<Rightarrow> bool" where
  "is_db_access (Print m) = False"
| "is_db_access (OpenFile f) = False"
| "is_db_access _ = True"

text \<open>The counts reported by the line \<^verbatim>\<open>Import complete: n workflow(s) imported\<close>.\<close>

fun reported_count :: "event \<Rightarrow> nat list" where
  "reported_count (Print (MsgImportComplete n)) = [n]"
| "reported_count _ = []"

text \<open>The rows of the table \<^verbatim>\<open>workflow\<close> in the database file at a path.\<close>

definition workflow_rows :: "string \<Rightarrow> world \<Rightarrow> db_row list" where
  "workflow_rows p w =
     (case db_files w p of
        None \<Rightarrow> []
      | Some db \<Rightarrow> (case workflow db of None \<Rightarrow> [] | Some rows \<Rightarrow> rows))"

definition has_table :: "string \<Rightarrow> world \<Rightarrow> bool" where
  "has_table p w = (case db_files w p of None \<Rightarrow> False | Some db \<Rightarrow> workflow db \<noteq> None)"

text \<open>A loaded file: \<^verbatim>\<open>load_workflow\<close> returned a value.\<close>

fun loadable :: "exn + json \<Rightarrow> bool" where
  "loadable (Inr v) = True"
| "loadable (Inl e) = False"

text \<open>
  A file whose import can succeed: it loads as an object whose name (or the placeholder)
  can be bound to the SQL parameter.
\<close>

definition bindable :: "json \<Rightarrow> bool" where
  "bindable v = (case sqlite_bind v of Inl e \<Rightarrow> False | Inr n \<Rightarrow> True)"

fun importable :: "exn + json \<Rightarrow> bool" where
  "importable (Inr (JObject d)) = bindable (dict_get d ''name'' (JString ''Untitled Workflow''))"
| "importable _ = False"

text \<open>
  The specification's workflow record: an object whose recognised fields, where present,
  are a text (name), an array (nodes), an object (connections) and a boolean (active).
  A malformed file is one that does not load.
\<close>

fun is_string :: "json \<Rightarrow> bool" where
  "is_string (JString s) = True"
| "is_string _ = False"

fun is_array :: "json \<Rightarrow> bool" where
  "is_array (JArray vs) = True"
| "is_array _ = False"

fun is_object :: "json \<Rightarrow> bool" where
  "is_object (JObject d) = True"
| "is_object _ = False"

fun is_bool :: "json \<Rightarrow> bool" where
  "is_bool (JBool b) = True"
| "is_bool _ = False"

definition field_ok :: "(string \<times> json) list \<Rightarrow> string \<Rightarrow> (json \<Rightarrow> bool) \<Rightarrow> bool" where
  "field_ok d k P = (case map_of d k of None \<Rightarrow> True | Some v \<Rightarrow> P v)"

fun well_formed :: "exn + json \<Rightarrow> bool" where
  "well_formed (Inr (JObject d)) =
     (field_ok d ''name'' is_string \<and> field_ok d ''nodes'' is_array \<and>
      field_ok d ''connections'' is_object \<and> field_ok d ''active'' is_bool)"
| "well_formed _ = False"

fun malformed :: "exn + json \<Rightarrow> bool" where
  "malformed (Inl e) = True"
| "malformed (Inr v) = False"

text \<open>
  The world after the checks of \<^verbatim>\<open>main\<close> have passed, the events up to there, and the
  events of the closing report.
\<close>

definition header :: "world \<Rightarrow> event list" where
  "header w =
     [Print MsgRule, Print MsgTitle, Print MsgRule, Print (MsgFound (length (discover w))),
      PathExists (N8N_DB w), Print (MsgUsingDatabase (N8N_DB w))]"

definition started :: "world \<Rightarrow> world" where
  "started w = w\<lparr>trace := trace w @ header w\<rparr>"

definition report :: "nat \<Rightarrow> event list" where
  "report n = map Print [MsgRule, MsgImportComplete n, MsgRule,
                        MsgNextSteps, MsgStep 1, MsgStep 2, MsgStep 3, MsgStep 4]"

subsection \<open>Example worlds\<close>

text \<open>
  The specification's example file, in a directory with a file that does not parse and
  a file the pattern does not match; and a directory in which every file fails.
\<close>

definition example_object :: "(string \<times> json) list" where
  "example_object =
     [(''name'', JString ''Test''), (''nodes'', JArray []),
      (''connections'', JObject []), (''active'', JBool True)]"

definition example_world :: world where
  "example_world =
     \<lparr>home = ''/home/op'',
      workflows_dir =
        [(''b-workflow.json'', Inl JSONDecodeError),
         (''notes.txt'', Inl OSError),
         (''a-workflow.json'', Inr (JObject example_object))],
      db_files = [''/home/op/.n8n/database.sqlite'' \<mapsto> \<lparr>workflow = Some []\<rparr>],
      clock = 0,
      trace = []\<rparr>"

definition failing_world :: world where
  "failing_world =
     \<lparr>home = ''/home/op'',
      workflows_dir =
        [(''c-workflow.json'', Inr (JObject [(''name'', JArray [])])),
         (''a-workflow.json'', Inl JSONDecodeError),
         (''b-workflow.json'', Inr (JArray [JObject example_object]))],
      db_files = [''/home/op/.n8n/database.sqlite'' \<mapsto> \<lparr>workflow = Some []\<rparr>],
      clock = 0,
      trace = []\<rparr>"

text \<open>A workflow with one node, for the round trip of nodes and connections.\<close>

definition start_workflow :: "(string \<times> json) list" where
  "start_workflow =
     [(''name'', JString ''Product Photo Capture''),
      (''nodes'',
       JArray [JObject [(''id'', JInt 1), (''type'', JString ''n8n-nodes-base.start''),
                        (''position'', JArray [JInt 250, JInt (- 300)]),
                        (''disabled'', JBool False), (''notes'', JNull)]]),
      (''connections'', JObject [(''Start'', JObject [(''main'', JArray [JArray []])])]),
      (''active'', JBool False)]"

definition names_world :: world where
  "names_world = example_world\<lparr>workflows_dir :=
     [(''b-workflow.json'', Inr (JObject [(''name'', JString ''Test'')])),
      (''a-workflow.json'', Inr (JObject example_object))]\<rparr>"

section \<open>Decoding what \<open>json_dumps\<close> writes\<close>

lemma hex_val_hex_char: "k < 16 \<Longrightarrow> hex_val (hex_char k) = Some k"
  by (auto simp: hex_val_def hex_char_def Let_def)

lemma of_char_lt_256: "(of_char c :: nat) < 256"
  by (metis char_of_char of_char_of mod_less_divisor zero_less_numeral)

lemma hex4_escape:
  "hex4 [CHR ''0'', CHR ''0'', hex_char ((of_char c :: nat) div 16), hex_char ((of_char c :: nat) mod 16)]
     = Some (of_char c)"
proof -
  have "(of_char c :: nat) div 16 < 16" using of_char_lt_256 [of c] by arith
  then show ?thesis
    by (simp add: hex4_def hex_val_hex_char) (simp add: hex_val_def)
qed

lemma scanstring_escape_char:
  "scanstring (escape_char c @ s) = cons_result c (scanstring s)"
proof -
  consider (named) "c \<in> {CHR 0x22, CHR 0x5C, CHR 0x0A, CHR 0x0D, CHR 0x09, CHR 0x08, CHR 0x0C}"
    | (plain) "c \<notin> {CHR 0x22, CHR 0x5C, CHR 0x0A, CHR 0x0D, CHR 0x09, CHR 0x08, CHR 0x0C}"
        "32 \<le> (of_char c :: nat) \<and> (of_char c :: nat) \<le> 126"
    | (hex) "c \<notin> {CHR 0x22, CHR 0x5C, CHR 0x0A, CHR 0x0D, CHR 0x09, CHR 0x08, CHR 0x0C}"
        "\<not> (32 \<le> (of_char c :: nat) \<and> (of_char c :: nat) \<le> 126)"
    by blast
  then show ?thesis
  proof cases
    case named
    then show ?thesis by (auto simp: escape_char_def unescape_def)
  next
    case plain
    then show ?thesis by (simp add: escape_char_def)
  next
    case hex
    then have e: "escape_char c = [CHR 0x5C, CHR ''u'', CHR ''0'', CHR ''0'',
            hex_char ((of_char c :: nat) div 16), hex_char ((of_char c :: nat) mod 16)]"
      by (simp add: escape_char_def)
    show ?thesis unfolding e using hex4_escape [of c] of_char_lt_256 [of c] by simp
  qed
qed

lemma scanstring_escaped:
  "scanstring (concat (map escape_char s) @ CHR 0x22 # r) = Some (s, r)"
  by (induction s) (simp_all add: scanstring_escape_char cons_result_def)

lemma scanstring_dumps_string:
  "dumps_string k @ r = CHR 0x22 # t \<Longrightarrow> scanstring t = Some (k, r)"
  by (auto simp: dumps_string_def scanstring_escaped)

lemma digit_char_zero: "digit_char 0 = CHR ''0''"
proof -
  have "char_of (of_char (CHR ''0'') :: nat) = CHR ''0''" by (rule char_of_char)
  then show ?thesis by (simp add: digit_char_def)
qed

lemma digit_char_props:
  assumes "n < 10"
  shows "is_digit (digit_char n)" "digit_val (digit_char n) = n"
    "(digit_char n = CHR ''0'') = (n = 0)" "digit_char n \<noteq> CHR ''-''"
proof -
  from assms have o: "(of_char (digit_char n) :: nat) = 48 + n"
    by (simp add: digit_char_def)
  show "is_digit (digit_char n)" using o assms by (simp add: is_digit_def)
  show "digit_val (digit_char n) = n" using o by (simp add: digit_val_def)
  show "(digit_char n = CHR ''0'') = (n = 0)"
  proof
    assume "digit_char n = CHR ''0''"
    then have "(of_char (digit_char n) :: nat) = of_char (CHR ''0'')" by simp
    with o show "n = 0" by simp
  next
    assume "n = 0"
    then show "digit_char n = CHR ''0''" by (simp add: digit_char_zero)
  qed
  show "digit_char n \<noteq> CHR ''-''"
  proof
    assume "digit_char n = CHR ''-''"
    then have "(of_char (digit_char n) :: nat) = of_char (CHR ''-'')" by simp
    with o show False by simp
  qed
qed

lemma digits_digit: "c \<in> set (digits n) \<Longrightarrow> is_digit c"
proof (induction n rule: digits.induct)
  case (1 n)
  show ?case
  proof (cases "n < 10")
    case True
    with "1.prems" show ?thesis by (simp add: digits.simps [of n] digit_char_props)
  next
    case False
    with "1.prems" "1.IH" show ?thesis
      by (auto simp: digits.simps [of n] digit_char_props)
  qed
qed

lemma digits_value: "foldl (\<lambda>a d. 10 * a + digit_val d) 0 (digits n) = n"
proof (induction n rule: digits.induct)
  case (1 n)
  show ?case
  proof (cases "n < 10")
    case True
    then show ?thesis by (simp add: digits.simps [of n] digit_char_props)
  next
    case False
    with "1.IH" show ?thesis
      by (simp add: digits.simps [of n] digit_char_props)
  qed
qed

lemma digits_head:
  "\<exists>c ds. digits n = c # ds \<and> is_digit c \<and> c \<noteq> CHR ''-'' \<and> (c = CHR ''0'' \<longrightarrow> n = 0)"
proof (induction n rule: digits.induct)
  case (1 n)
  show ?case
  proof (cases "n < 10")
    case True
    then show ?thesis by (simp add: digits.simps [of n] digit_char_props)
  next
    case False
    with "1.IH" obtain c ds where
      d: "digits (n div 10) = c # ds" "is_digit c" "c \<noteq> CHR ''-''" "c = CHR ''0'' \<longrightarrow> n div 10 = 0"
      by blast
    from False have "n div 10 \<noteq> 0" by simp
    with d False show ?thesis by (simp add: digits.simps [of n])
  qed
qed

lemma digits_zero: "digits 0 = ''0''"
  by (simp add: digits.simps [of 0] digit_char_zero)

lemma takeWhile_digits:
  assumes "\<forall>c \<in> set ds. is_digit c" and "number_end r"
  shows "takeWhile is_digit (ds @ r) = ds" "dropWhile is_digit (ds @ r) = r"
proof -
  from assms(2) have "takeWhile is_digit r = []" "dropWhile is_digit r = r"
    by (cases r; simp add: number_end_def)+
  with assms(1) show "takeWhile is_digit (ds @ r) = ds" "dropWhile is_digit (ds @ r) = r"
    by (simp_all add: takeWhile_append2 dropWhile_append2)
qed

lemma scan_nat_digits:
  assumes "number_end r"
  shows "scan_nat (digits n @ r) = Some (n, r)"
proof (cases "n = 0")
  case True
  then show ?thesis by (simp add: digits_zero scan_nat_def)
next
  case False
  from digits_head [of n] False obtain c ds where
    d: "digits n = c # ds" "is_digit c" "c \<noteq> CHR ''0''" by blast
  have "\<forall>x \<in> set ds. is_digit x" using digits_digit [of _ n] d(1) by simp
  note tw = takeWhile_digits [OF this assms]
  from digits_value [of n] d(1)
  have "foldl (\<lambda>a d. 10 * a + digit_val d) (digit_val c) ds = n" by simp
  with d tw show ?thesis by (simp add: scan_nat_def)
qed

lemma number_end_not_float:
  "number_end r \<Longrightarrow>
     (case r of [] \<Rightarrow> Some (i, r)
      | c # cs \<Rightarrow> if c = CHR ''.'' \<or> c = CHR ''e'' \<or> c = CHR ''E'' then None else Some (i, r))
     = Some (i, r)"
  by (cases r) (simp_all add: number_end_def)

lemma scan_int_repr:
  assumes "number_end r"
  shows "scan_int (int_repr i @ r) = Some (i, r)"
proof (cases "i < 0")
  case True
  then have "int_repr i @ r = CHR ''-'' # digits (nat (- i)) @ r" by (simp add: int_repr_def)
  with True scan_nat_digits [OF assms, of "nat (- i)"] number_end_not_float [OF assms]
  show ?thesis by (simp add: scan_int_def)
next
  case False
  from digits_head [of "nat i"] obtain c ds where
    d: "digits (nat i) = c # ds" "c \<noteq> CHR ''-''" by blast
  from False have "int_repr i @ r = digits (nat i) @ r" by (simp add: int_repr_def)
  with False d scan_nat_digits [OF assms, of "nat i"] number_end_not_float [OF assms]
  show ?thesis by (simp add: scan_int_def)
qed

lemma int_repr_head:
  "\<exists>c t. int_repr i = c # t \<and> (is_digit c \<or> c = CHR ''-'')"
proof -
  from digits_head [of "nat i"] obtain c ds where "digits (nat i) = c # ds" "is_digit c" by blast
  then show ?thesis by (cases "i < 0") (simp_all add: int_repr_def)
qed

lemma is_digit_not_special:
  assumes "is_digit c"
  shows "\<not> is_ws c" "c \<noteq> CHR 0x22" "c \<noteq> CHR ''{''" "c \<noteq> CHR ''[''" "c \<noteq> CHR '']''"
    "c \<noteq> CHR ''}''" "c \<noteq> CHR ''n''" "c \<noteq> CHR ''t''" "c \<noteq> CHR ''f''"
  using assms by (auto simp: is_digit_def is_ws_def)

lemma skip_ws_simps:
  "skip_ws [] = []"
  "\<not> is_ws c \<Longrightarrow> skip_ws (c # s) = c # s"
  "skip_ws (CHR '' '' # s) = skip_ws s"
  by (simp_all add: skip_ws_def is_ws_def)

lemma is_ws_literals:
  "\<not> is_ws (CHR '','')" "\<not> is_ws (CHR '']'')" "\<not> is_ws (CHR ''}'')" "\<not> is_ws (CHR '':'')"
  "\<not> is_ws (CHR 0x22)" "\<not> is_ws (CHR ''['')" "\<not> is_ws (CHR ''{'')" "\<not> is_ws (CHR ''-'')"
  "\<not> is_ws (CHR ''n'')" "\<not> is_ws (CHR ''t'')" "\<not> is_ws (CHR ''f'')"
  by (simp_all add: is_ws_def)

lemma number_end_literals:
  "number_end []" "number_end (CHR '','' # s)" "number_end (CHR '']'' # s)"
  "number_end (CHR ''}'' # s)"
  by (simp_all add: number_end_def is_digit_def)

lemma json_dumps_start:
  "\<exists>c t. json_dumps v = c # t \<and> \<not> is_ws c \<and> c \<noteq> CHR '']'' \<and> c \<noteq> CHR ''}''"
proof (cases v)
  case (JInt i)
  from int_repr_head [of i] obtain c t where "int_repr i = c # t" "is_digit c \<or> c = CHR ''-''"
    by blast
  with JInt show ?thesis by (auto simp: is_digit_def is_ws_def)
qed (auto simp: is_ws_def dumps_string_def)

lemma dumps_string_start: "\<exists>t. dumps_string k = CHR 0x22 # t"
  by (simp add: dumps_string_def)

lemma scan_once_int:
  assumes "number_end r"
  shows "scan_once (Suc n) (int_repr i @ r) = Some (JInt i, r)"
proof -
  from int_repr_head [of i] obtain c t where h: "int_repr i = c # t" "is_digit c \<or> c = CHR ''-''"
    by blast
  then have ne: "c \<noteq> CHR 0x22" "c \<noteq> CHR ''{''" "c \<noteq> CHR ''[''" "c \<noteq> CHR ''n''"
    "c \<noteq> CHR ''t''" "c \<noteq> CHR ''f''"
    by (auto simp: is_digit_def)
  from scan_int_repr [OF assms, of i] h(1) have "scan_int (c # t @ r) = Some (i, r)" by simp
  with h(1) ne show ?thesis by simp
qed

lemma scan_once_string:
  "scan_once (Suc n) (dumps_string s @ r) = Some (JString s, r)"
  by (simp add: dumps_string_def scanstring_escaped)

lemma dict_set_fresh: "k \<notin> fst ` set d \<Longrightarrow> dict_set k v d = d @ [(k, v)]"
  by (induction d) auto

lemma dict_of_foldl:
  "distinct (map fst (acc @ ps)) \<Longrightarrow>
     foldl (\<lambda>d p. dict_set (fst p) (snd p) d) acc ps = acc @ ps"
proof (induction ps arbitrary: acc)
  case Nil
  then show ?case by simp
next
  case (Cons p ps)
  from Cons.prems have "fst p \<notin> fst ` set acc" by auto
  then have "dict_set (fst p) (snd p) acc = acc @ [p]" by (simp add: dict_set_fresh)
  moreover from Cons.prems have "distinct (map fst ((acc @ [p]) @ ps))" by simp
  ultimately show ?case using Cons.IH [of "acc @ [p]"] by simp
qed

lemma dict_of_distinct: "distinct (map fst d) \<Longrightarrow> dict_of d = d"
  using dict_of_foldl [of "[]" d] by (simp add: dict_of_def)

lemma join_Cons: "join sep (x # xs) = (if xs = [] then x else x @ sep @ join sep xs)"
  by (cases xs) simp_all

lemma skip_ws_start: "s = c # t \<Longrightarrow> \<not> is_ws c \<Longrightarrow> skip_ws (s @ r) = s @ r"
  by (simp add: skip_ws_simps)

lemma skip_ws_dumps: "skip_ws (json_dumps v @ r) = json_dumps v @ r"
  using json_dumps_start [of v] by (auto simp: skip_ws_simps)

lemma elements_start:
  "vs \<noteq> [] \<Longrightarrow>
     \<exists>c t. join '', '' (map json_dumps vs) = c # t \<and> \<not> is_ws c \<and> c \<noteq> CHR '']''"
  using json_dumps_start [of "hd vs"] by (cases vs) (auto simp: join_Cons)

lemma parse_elements_join:
  assumes "vs \<noteq> []"
    and "\<And>v n r. v \<in> set vs \<Longrightarrow> 2 * length (json_dumps v) \<le> n \<Longrightarrow> number_end r \<Longrightarrow>
           scan_once n (json_dumps v @ r) = Some (v, r)"
    and "2 * length (join '', '' (map json_dumps vs)) + 1 \<le> n"
  shows "parse_elements n (join '', '' (map json_dumps vs) @ CHR '']'' # r) = Some (vs, r)"
  using assms
proof (induction vs arbitrary: n)
  case Nil
  then show ?case by simp
next
  case (Cons v vs)
  from Cons.prems(3) obtain m where n: "n = Suc m" by (cases n) auto
  show ?case
  proof (cases "vs = []")
    case True
    from Cons.prems(3) n True have m: "2 * length (json_dumps v) \<le> m" by simp
    have "scan_once m (json_dumps v @ CHR '']'' # r) = Some (v, CHR '']'' # r)"
      by (rule Cons.prems(2)) (simp_all add: m number_end_literals)
    with True n show ?thesis by (simp add: skip_ws_simps is_ws_literals)
  next
    case False
    let ?rest = "join '', '' (map json_dumps vs)"
    have j: "join '', '' (map json_dumps (v # vs)) = json_dumps v @ '', '' @ ?rest"
      using False by (simp add: join_Cons)
    from j Cons.prems(3) n have m: "2 * length (json_dumps v) \<le> m" "2 * length ?rest + 1 \<le> m"
      by simp_all
    have s: "scan_once m (json_dumps v @ CHR '','' # CHR '' '' # ?rest @ CHR '']'' # r)
               = Some (v, CHR '','' # CHR '' '' # ?rest @ CHR '']'' # r)"
      by (rule Cons.prems(2)) (simp_all add: m number_end_literals)
    from elements_start [OF False] obtain c t where st: "?rest = c # t" "\<not> is_ws c" by blast
    have w: "skip_ws (CHR '' '' # ?rest @ CHR '']'' # r) = ?rest @ CHR '']'' # r"
      using skip_ws_start [OF st] by (simp add: skip_ws_simps)
    have ih: "parse_elements m (?rest @ CHR '']'' # r) = Some (vs, r)"
      by (rule Cons.IH [OF False _ m(2)]) (simp add: Cons.prems(2))
    show ?thesis
      unfolding j n using s w ih
      by (simp add: skip_ws_simps is_ws_literals cons_result_def)
  qed
qed

lemma members_start:
  "d \<noteq> [] \<Longrightarrow>
     \<exists>t. join '', '' (map (\<lambda>(k, v). dumps_string k @ '': '' @ json_dumps v) d) = CHR 0x22 # t"
  by (cases d) (auto simp: join_Cons dumps_string_def)

lemma parse_members_join:
  assumes "d \<noteq> []"
    and "\<And>k v n r. (k, v) \<in> set d \<Longrightarrow> 2 * length (json_dumps v) \<le> n \<Longrightarrow> number_end r \<Longrightarrow>
           scan_once n (json_dumps v @ r) = Some (v, r)"
    and "2 * length (join '', '' (map (\<lambda>(k, v). dumps_string k @ '': '' @ json_dumps v) d)) + 1 \<le> n"
  shows "parse_members n
           (join '', '' (map (\<lambda>(k, v). dumps_string k @ '': '' @ json_dumps v) d) @ CHR ''}'' # r)
         = Some (d, r)"
  using assms
proof (induction d arbitrary: n)
  case Nil
  then show ?case by simp
next
  case (Cons p d)
  obtain k v where p: "p = (k, v)" by (cases p)
  let ?m = "\<lambda>(k, v). dumps_string k @ '': '' @ json_dumps v"
  let ?rest = "join '', '' (map ?m d)"
  from Cons.prems(3) obtain m where n: "n = Suc m" by (cases n) auto
  have key: "\<And>x. scanstring (concat (map escape_char k) @ CHR 0x22 # x) = Some (k, x)"
    by (rule scanstring_escaped)
  show ?case
  proof (cases "d = []")
    case True
    from Cons.prems(3) n True p have m: "2 * length (json_dumps v) \<le> m" by simp
    have s: "scan_once m (json_dumps v @ CHR ''}'' # r) = Some (v, CHR ''}'' # r)"
      by (rule Cons.prems(2) [of k]) (simp_all add: p m number_end_literals)
    show ?thesis
      using True n p s key
      by (simp add: dumps_string_def skip_ws_simps is_ws_literals skip_ws_dumps)
  next
    case False
    have j: "join '', '' (map ?m (p # d)) = dumps_string k @ '': '' @ json_dumps v @ '', '' @ ?rest"
      using False p by (simp add: join_Cons)
    from j Cons.prems(3) n have m: "2 * length (json_dumps v) \<le> m" "2 * length ?rest + 1 \<le> m"
      by simp_all
    have s: "scan_once m (json_dumps v @ CHR '','' # CHR '' '' # ?rest @ CHR ''}'' # r)
               = Some (v, CHR '','' # CHR '' '' # ?rest @ CHR ''}'' # r)"
      by (rule Cons.prems(2) [of k]) (simp_all add: p m number_end_literals)
    from members_start [OF False] obtain t where st: "?rest = CHR 0x22 # t" by blast
    have w: "skip_ws (CHR '' '' # ?rest @ CHR ''}'' # r) = ?rest @ CHR ''}'' # r"
      using skip_ws_start [OF st] by (simp add: skip_ws_simps is_ws_literals)
    have ih: "parse_members m (?rest @ CHR ''}'' # r) = Some (d, r)"
    proof (rule Cons.IH [OF False _ m(2)])
      fix k' v' n' r'
      assume "(k', v') \<in> set d" and "2 * length (json_dumps v') \<le> n'" and "number_end r'"
      then show "scan_once n' (json_dumps v' @ r') = Some (v', r')"
        by (intro Cons.prems(2) [of k']) simp_all
    qed
    show ?thesis
      unfolding j n using s w ih key p
      by (simp add: dumps_string_def skip_ws_simps is_ws_literals skip_ws_dumps cons_result_def)
  qed
qed

lemma scan_once_dumps:
  "wf_json v \<Longrightarrow> 2 * length (json_dumps v) \<le> n \<Longrightarrow> number_end r \<Longrightarrow>
     scan_once n (json_dumps v @ r) = Some (v, r)"
proof (induction v arbitrary: n r)
  case JNull
  then obtain m where "n = Suc m" by (cases n) auto
  then show ?case by simp
next
  case (JBool b)
  then obtain m where "n = Suc m" by (cases n) (auto split: if_splits)
  then show ?case by simp
next
  case (JInt i)
  from JInt.prems(2) int_repr_head [of i] obtain m where n: "n = Suc m" by (cases n) auto
  from JInt.prems(3) show ?case unfolding n json_dumps.simps by (rule scan_once_int)
next
  case (JString s)
  then obtain m where n: "n = Suc m" by (cases n) (auto simp: dumps_string_def)
  show ?case unfolding n json_dumps.simps by (rule scan_once_string)
next
  case (JArray vs)
  from JArray.prems(2) obtain m where n: "n = Suc m" by (cases n) auto
  show ?case
  proof (cases "vs = []")
    case True
    with n show ?thesis by (simp add: skip_ws_simps is_ws_literals)
  next
    case False
    let ?e = "join '', '' (map json_dumps vs)"
    from JArray.prems(2) n have m: "2 * length ?e + 1 \<le> m" by simp
    have p: "parse_elements m (?e @ CHR '']'' # r) = Some (vs, r)"
    proof (rule parse_elements_join [OF False _ m])
      fix v n' r'
      assume "v \<in> set vs" and "2 * length (json_dumps v) \<le> n'" and "number_end r'"
      with JArray.prems(1) show "scan_once n' (json_dumps v @ r') = Some (v, r')"
        by (intro JArray.IH) (simp_all add: list_all_iff)
    qed
    from elements_start [OF False] obtain c t where
      st: "?e = c # t" "\<not> is_ws c" "c \<noteq> CHR '']''" by blast
    from p st(1) have p': "parse_elements m (c # t @ CHR '']'' # r) = Some (vs, r)" by simp
    show ?thesis using n st p' by (simp add: skip_ws_simps)
  qed
next
  case (JObject d)
  from JObject.prems(2) obtain m where n: "n = Suc m" by (cases n) auto
  show ?case
  proof (cases "d = []")
    case True
    with n show ?thesis by (simp add: skip_ws_simps is_ws_literals)
  next
    case False
    let ?e = "join '', '' (map (\<lambda>(k, v). dumps_string k @ '': '' @ json_dumps v) d)"
    from JObject.prems(2) n have m: "2 * length ?e + 1 \<le> m" by simp
    have p: "parse_members m (?e @ CHR ''}'' # r) = Some (d, r)"
    proof (rule parse_members_join [OF False _ m])
      fix k v n' r'
      assume "(k, v) \<in> set d" and "2 * length (json_dumps v) \<le> n'" and "number_end r'"
      with JObject.prems(1) show "scan_once n' (json_dumps v @ r') = Some (v, r')"
        by (intro JObject.IH [of "(k, v)"]) (auto simp: list_all_iff)
    qed
    from members_start [OF False] obtain t where st: "?e = CHR 0x22 # t" by blast
    from p st have p': "parse_members m (CHR 0x22 # t @ CHR ''}'' # r) = Some (d, r)" by simp
    from JObject.prems(1) have "dict_of d = d" by (simp add: dict_of_distinct)
    with n st p' show ?thesis by (simp add: skip_ws_simps is_ws_literals)
  qed
qed

lemma json_loads_dumps: "wf_json v \<Longrightarrow> json_loads (json_dumps v) = Some v"
  using scan_once_dumps [of v "2 * length (json_dumps v) + 2" "[]"] skip_ws_dumps [of v "[]"]
  by (simp add: json_loads_def number_end_literals skip_ws_simps)

section \<open>The loop of \<open>main\<close>\<close>

lemmas run_defs = loop_body_def load_workflow_def import_workflow_to_db_def os_path_exists_def
  try_import_def sqlite3_connect_def datetime_now_def conn_commit_def execute_insert_def
  emit_def print_def

lemma loop_body_frame:
  "loop_body p f c w = (c', w') \<Longrightarrow> home w' = home w \<and> workflows_dir w' = workflows_dir w"
  by (auto simp: run_defs Let_def split: prod.splits sum.splits option.splits json.splits if_splits)

lemma loop_body_opened:
  "loop_body p f c w = (c', w') \<Longrightarrow> opened_files (trace w') = opened_files (trace w) @ [fst f]"
  by (auto simp: run_defs opened_files_def Let_def split: prod.splits sum.splits option.splits json.splits if_splits)

lemma loop_body_has_table:
  "loop_body p f c w = (c', w') \<Longrightarrow> has_table p w' = has_table p w"
  by (auto simp: run_defs has_table_def Let_def split: prod.splits sum.splits option.splits json.splits if_splits)

lemma loop_body_exists:
  "loop_body p f c w = (c', w') \<Longrightarrow> (db_files w' p = None) = (db_files w p = None)"
  by (auto simp: run_defs has_table_def Let_def split: prod.splits sum.splits option.splits json.splits if_splits)

lemma loop_body_count:
  "loop_body p f c w = (c', w') \<Longrightarrow>
     c' = c + (if has_table p w \<and> importable (snd f) then 1 else 0)"
  by (cases f) (auto simp: run_defs has_table_def bindable_def Let_def split: prod.splits sum.splits option.splits json.splits if_splits)

lemma loop_body_rows:
  "loop_body p f c w = (c', w') \<Longrightarrow>
     \<exists>new. workflow_rows p w' = workflow_rows p w @ new \<and> length new = c' - c"
  by (cases f) (auto simp: run_defs workflow_rows_def bindable_def Let_def split: prod.splits sum.splits option.splits json.splits if_splits)

lemma loop_body_errors:
  "loop_body p f c w = (c', w') \<Longrightarrow>
     length (filter is_error_message (trace w')) =
       length (filter is_error_message (trace w)) + (if c' = c then 1 else 0)"
  by (cases f) (auto simp: run_defs Let_def split: prod.splits sum.splits option.splits json.splits if_splits)

lemma loop_body_steps:
  "loop_body p f c w = (c', w') \<Longrightarrow>
     filter is_step (trace w') = filter is_step (trace w) @
       OpenFile (fst f) # (if has_table p w \<and> importable (snd f) then [Commit p] else [])"
  by (cases f) (auto simp: run_defs has_table_def bindable_def Let_def split: prod.splits sum.splits option.splits json.splits if_splits)

lemma loop_body_checks:
  "loop_body p f c w = (c', w') \<Longrightarrow>
     length (filter is_exists_check (trace w')) =
       length (filter is_exists_check (trace w)) + (if loadable (snd f) then 1 else 0)"
  by (cases f) (auto simp: run_defs Let_def split: prod.splits sum.splits option.splits json.splits if_splits)

lemma loop_body_trace:
  "loop_body p f c w = (c', w') \<Longrightarrow> \<exists>ev. trace w' = trace w @ ev"
  by (cases f) (auto simp: run_defs Let_def split: prod.splits sum.splits option.splits json.splits if_splits)

lemma import_each_frame:
  "import_each p fs c w = (c', w') \<Longrightarrow>
     home w' = home w \<and> workflows_dir w' = workflows_dir w \<and>
     has_table p w' = has_table p w \<and> (db_files w' p = None) = (db_files w p = None)"
proof (induction fs arbitrary: c w)
  case Nil
  then show ?case by simp
next
  case (Cons f fs)
  obtain c1 w1 where b: "loop_body p f c w = (c1, w1)" by (cases "loop_body p f c w")
  with Cons.prems have r: "import_each p fs c1 w1 = (c', w')" by simp
  from Cons.IH [OF r] loop_body_frame [OF b] loop_body_has_table [OF b] loop_body_exists [OF b]
  show ?case by simp
qed

lemma import_each_trace:
  "import_each p fs c w = (c', w') \<Longrightarrow> \<exists>ev. trace w' = trace w @ ev"
proof (induction fs arbitrary: c w)
  case Nil
  then show ?case by simp
next
  case (Cons f fs)
  obtain c1 w1 where b: "loop_body p f c w = (c1, w1)" by (cases "loop_body p f c w")
  with Cons.prems have r: "import_each p fs c1 w1 = (c', w')" by simp
  from Cons.IH [OF r] loop_body_trace [OF b] show ?case by auto
qed

lemma import_each_count:
  "import_each p fs c w = (c', w') \<Longrightarrow>
     c' = c + (if has_table p w then length (filter (\<lambda>f. importable (snd f)) fs) else 0)"
proof (induction fs arbitrary: c w)
  case Nil
  then show ?case by simp
next
  case (Cons f fs)
  obtain c1 w1 where b: "loop_body p f c w = (c1, w1)" by (cases "loop_body p f c w")
  with Cons.prems have r: "import_each p fs c1 w1 = (c', w')" by simp
  from Cons.IH [OF r] loop_body_count [OF b] loop_body_has_table [OF b]
  show ?case by simp
qed

lemma import_each_rows:
  "import_each p fs c w = (c', w') \<Longrightarrow>
     \<exists>new. workflow_rows p w' = workflow_rows p w @ new \<and> length new + c = c'"
proof (induction fs arbitrary: c w)
  case Nil
  then show ?case by simp
next
  case (Cons f fs)
  obtain c1 w1 where b: "loop_body p f c w = (c1, w1)" by (cases "loop_body p f c w")
  with Cons.prems have r: "import_each p fs c1 w1 = (c', w')" by simp
  from loop_body_count [OF b] have "c \<le> c1" by simp
  with Cons.IH [OF r] loop_body_rows [OF b]
  show ?case by auto
qed

lemma import_each_errors:
  "import_each p fs c w = (c', w') \<Longrightarrow>
     length (filter is_error_message (trace w')) + c' =
       length (filter is_error_message (trace w)) + c + length fs"
proof (induction fs arbitrary: c w)
  case Nil
  then show ?case by simp
next
  case (Cons f fs)
  obtain c1 w1 where b: "loop_body p f c w = (c1, w1)" by (cases "loop_body p f c w")
  with Cons.prems have r: "import_each p fs c1 w1 = (c', w')" by simp
  from Cons.IH [OF r] loop_body_errors [OF b] loop_body_count [OF b]
  show ?case by (simp split: if_splits)
qed

lemma import_each_steps:
  "import_each p fs c w = (c', w') \<Longrightarrow>
     filter is_step (trace w') = filter is_step (trace w) @
       concat (map (\<lambda>f. OpenFile (fst f) #
                  (if has_table p w \<and> importable (snd f) then [Commit p] else [])) fs)"
proof (induction fs arbitrary: c w)
  case Nil
  then show ?case by simp
next
  case (Cons f fs)
  obtain c1 w1 where b: "loop_body p f c w = (c1, w1)" by (cases "loop_body p f c w")
  with Cons.prems have r: "import_each p fs c1 w1 = (c', w')" by simp
  from Cons.IH [OF r] loop_body_steps [OF b] loop_body_has_table [OF b]
  show ?case by simp
qed

lemma import_each_checks:
  "import_each p fs c w = (c', w') \<Longrightarrow>
     length (filter is_exists_check (trace w')) =
       length (filter is_exists_check (trace w)) + length (filter (\<lambda>f. loadable (snd f)) fs)"
proof (induction fs arbitrary: c w)
  case Nil
  then show ?case by simp
next
  case (Cons f fs)
  obtain c1 w1 where b: "loop_body p f c w = (c1, w1)" by (cases "loop_body p f c w")
  with Cons.prems have r: "import_each p fs c1 w1 = (c', w')" by simp
  from Cons.IH [OF r] loop_body_checks [OF b]
  show ?case by simp
qed

lemma main_no_files:
  "discover w = [] \<Longrightarrow>
     main w = (1, w\<lparr>trace := trace w @
       [Print MsgRule, Print MsgTitle, Print MsgRule, Print MsgNoWorkflowFiles]\<rparr>)"
  by (simp add: main_def print_all_def print_def emit_def discover_def Let_def)

lemma main_no_database:
  "discover w \<noteq> [] \<Longrightarrow> db_files w (N8N_DB w) = None \<Longrightarrow>
     main w = (1, w\<lparr>trace := trace w @
       [Print MsgRule, Print MsgTitle, Print MsgRule, Print (MsgFound (length (discover w))),
        PathExists (N8N_DB w), Print (MsgN8nDatabaseNotFound (N8N_DB w)),
        Print MsgStartN8nFirst]\<rparr>)"
  by (simp add: main_def print_all_def print_def emit_def discover_def Let_def
      os_path_exists_def N8N_DB_def N8N_HOME_def)

lemma main_pass:
  assumes "discover w \<noteq> []" and "db_files w (N8N_DB w) \<noteq> None"
    and "import_each (N8N_DB w) (discover w) 0 (started w) = (c, w5)"
  shows "main w = (0, w5\<lparr>trace := trace w5 @ report c\<rparr>)"
  using assms
  by (simp add: main_def print_all_def print_def emit_def discover_def Let_def
      os_path_exists_def N8N_DB_def N8N_HOME_def started_def header_def report_def)

lemma import_each_opened:
  "import_each p fs c w = (c', w') \<Longrightarrow>
     opened_files (trace w') = opened_files (trace w) @ map fst fs"
proof (induction fs arbitrary: c w)
  case Nil
  then show ?case by simp
next
  case (Cons f fs)
  obtain c1 w1 where b: "loop_body p f c w = (c1, w1)" by (cases "loop_body p f c w")
  with Cons.prems have r: "import_each p fs c1 w1 = (c', w')" by simp
  from Cons.IH [OF r] loop_body_opened [OF b]
  show ?case by simp
qed

lemma import_each_events:
  assumes "import_each p fs c w = (c', w')"
  shows "\<exists>ev. trace w' = trace w @ ev \<and>
           opened_files ev = map fst fs \<and>
           filter is_step ev =
             concat (map (\<lambda>f. OpenFile (fst f) #
                (if has_table p w \<and> importable (snd f) then [Commit p] else [])) fs) \<and>
           length (filter is_error_message ev) + c' = c + length fs \<and>
           length (filter is_exists_check ev) = length (filter (\<lambda>f. loadable (snd f)) fs)"
proof -
  from import_each_trace [OF assms] obtain ev where ev: "trace w' = trace w @ ev" by blast
  from import_each_opened [OF assms] ev have 1: "opened_files ev = map fst fs"
    by (simp add: opened_files_def)
  from import_each_steps [OF assms] ev
  have 2: "filter is_step ev = concat (map (\<lambda>f. OpenFile (fst f) #
                (if has_table p w \<and> importable (snd f) then [Commit p] else [])) fs)"
    by simp
  from import_each_errors [OF assms] ev
  have 3: "length (filter is_error_message ev) + c' = c + length fs" by simp
  from import_each_checks [OF assms] ev
  have 4: "length (filter is_exists_check ev) = length (filter (\<lambda>f. loadable (snd f)) fs)"
    by simp
  from ev 1 2 3 4 show ?thesis by blast
qed

lemma main_pass_run:
  assumes "discover w \<noteq> []" and "db_files w (N8N_DB w) \<noteq> None"
  shows "\<exists>c w5 ev. import_each (N8N_DB w) (discover w) 0 (started w) = (c, w5) \<and>
           trace w5 = trace w @ header w @ ev \<and>
           main w = (0, w5\<lparr>trace := trace w5 @ report c\<rparr>) \<and>
           run_events w = header w @ ev @ report c"
proof -
  obtain c w5 where r: "import_each (N8N_DB w) (discover w) 0 (started w) = (c, w5)"
    by (cases "import_each (N8N_DB w) (discover w) 0 (started w)")
  from import_each_trace [OF r] obtain ev where "trace w5 = trace (started w) @ ev" by blast
  then have t: "trace w5 = trace w @ header w @ ev" by (simp add: started_def)
  from main_pass [OF assms r] have m: "main w = (0, w5\<lparr>trace := trace w5 @ report c\<rparr>)" .
  from m t have "run_events w = header w @ ev @ report c" by (simp add: run_events_def)
  with r t m show ?thesis by blast
qed

lemma started_fields:
  "home (started w) = home w" "workflows_dir (started w) = workflows_dir w"
  "db_files (started w) = db_files w" "has_table p (started w) = has_table p w"
  "workflow_rows p (started w) = workflow_rows p w"
  "trace (started w) = trace w @ header w"
  by (simp_all add: started_def has_table_def workflow_rows_def)

lemma loop_body_reports:
  "loop_body p f c w = (c', w') \<Longrightarrow>
     concat (map reported_count (trace w')) = concat (map reported_count (trace w))"
  by (cases f) (auto simp: run_defs Let_def split: prod.splits sum.splits option.splits json.splits if_splits)

lemma import_each_reports:
  "import_each p fs c w = (c', w') \<Longrightarrow>
     concat (map reported_count (trace w')) = concat (map reported_count (trace w))"
proof (induction fs arbitrary: c w)
  case Nil
  then show ?case by simp
next
  case (Cons f fs)
  obtain c1 w1 where b: "loop_body p f c w = (c1, w1)" by (cases "loop_body p f c w")
  with Cons.prems have r: "import_each p fs c1 w1 = (c', w')" by simp
  from Cons.IH [OF r] loop_body_reports [OF b]
  show ?case by simp
qed

lemma well_formed_importable: "well_formed r \<Longrightarrow> importable r"
  by (cases r rule: well_formed.cases)
     (auto simp: field_ok_def bindable_def dict_get_def split: option.splits elim: is_string.elims)

lemma malformed_not_importable: "malformed r \<Longrightarrow> \<not> importable r"
  by (cases r) auto

lemma well_formed_not_malformed: "well_formed r \<Longrightarrow> \<not> malformed r"
  by (cases r) auto

lemma main_summary:
  assumes files: "discover w \<noteq> []" and db: "db_files w (N8N_DB w) \<noteq> None"
  shows "\<exists>c new ev.
           fst (main w) = 0 \<and>
           c = (if has_table (N8N_DB w) w
                then length (filter (\<lambda>f. importable (snd f)) (discover w)) else 0) \<and>
           workflow_rows (N8N_DB w) (snd (main w)) = workflow_rows (N8N_DB w) w @ new \<and>
           length new = c \<and>
           home (snd (main w)) = home w \<and>
           workflows_dir (snd (main w)) = workflows_dir w \<and>
           has_table (N8N_DB w) (snd (main w)) = has_table (N8N_DB w) w \<and>
           db_files (snd (main w)) (N8N_DB w) \<noteq> None \<and>
           run_events w = header w @ ev @ report c \<and>
           opened_files ev = map fst (discover w) \<and>
           filter is_step ev =
             concat (map (\<lambda>f. OpenFile (fst f) #
                (if has_table (N8N_DB w) w \<and> importable (snd f) then [Commit (N8N_DB w)] else []))
                (discover w)) \<and>
           length (filter is_error_message ev) + c = length (discover w) \<and>
           length (filter is_exists_check ev) =
             length (filter (\<lambda>f. loadable (snd f)) (discover w)) \<and>
           concat (map reported_count ev) = []"
proof -
  let ?p = "N8N_DB w"
  from main_pass_run [OF files db] obtain c w5 ev0 where
    r: "import_each ?p (discover w) 0 (started w) = (c, w5)" and
    m: "main w = (0, w5\<lparr>trace := trace w5 @ report c\<rparr>)" by blast
  from import_each_events [OF r] obtain ev where
    t: "trace w5 = trace (started w) @ ev" and
    o: "opened_files ev = map fst (discover w)" and
    s: "filter is_step ev =
             concat (map (\<lambda>f. OpenFile (fst f) #
                (if has_table ?p (started w) \<and> importable (snd f) then [Commit ?p] else []))
                (discover w))" and
    e: "length (filter is_error_message ev) + c = 0 + length (discover w)" and
    x: "length (filter is_exists_check ev) =
             length (filter (\<lambda>f. loadable (snd f)) (discover w))" by blast
  from import_each_count [OF r] have c: "c = (if has_table ?p w
                then length (filter (\<lambda>f. importable (snd f)) (discover w)) else 0)"
    by (simp add: started_fields)
  from import_each_rows [OF r] obtain new where
    n: "workflow_rows ?p w5 = workflow_rows ?p w @ new" "length new = c"
    by (auto simp: started_fields)
  from import_each_frame [OF r] have f: "home w5 = home w" "workflows_dir w5 = workflows_dir w"
    "has_table ?p w5 = has_table ?p w" "db_files w5 ?p \<noteq> None"
    using db by (simp_all add: started_fields)
  from import_each_reports [OF r] t have rp: "concat (map reported_count ev) = []"
    by (simp add: started_def header_def)
  from t m have re: "run_events w = header w @ ev @ report c"
    by (simp add: run_events_def started_def)
  have 1: "fst (main w) = 0" using m by simp
  have 2: "workflow_rows ?p (snd (main w)) = workflow_rows ?p w @ new"
    using m n by (simp add: workflow_rows_def)
  have 3: "home (snd (main w)) = home w" "workflows_dir (snd (main w)) = workflows_dir w"
    "has_table ?p (snd (main w)) = has_table ?p w" "db_files (snd (main w)) ?p \<noteq> None"
    using m f by (simp_all add: has_table_def)
  from s have s': "filter is_step ev =
             concat (map (\<lambda>f. OpenFile (fst f) #
                (if has_table ?p w \<and> importable (snd f) then [Commit ?p] else []))
                (discover w))" by (simp add: started_fields)
  from e have e': "length (filter is_error_message ev) + c = length (discover w)" by simp
  from 1 c 2 n(2) 3 re o s' e' x rp show ?thesis by blast
qed

lemma example_world_discover:
  "discover example_world =
     [(''a-workflow.json'', Inr (JObject example_object)),
      (''b-workflow.json'', Inl JSONDecodeError)]"
  by (simp add: discover_def example_world_def glob_match_def)

lemma example_world_db:
  "N8N_DB example_world = ''/home/op/.n8n/database.sqlite''"
  "db_files example_world ''/home/op/.n8n/database.sqlite'' = Some \<lparr>workflow = Some []\<rparr>"
  by (simp_all add: N8N_DB_def N8N_HOME_def example_world_def)

lemma failing_world_discover:
  "discover failing_world =
     [(''a-workflow.json'', Inl JSONDecodeError),
      (''b-workflow.json'', Inr (JArray [JObject example_object])),
      (''c-workflow.json'', Inr (JObject [(''name'', JArray [])]))]"
  by (simp add: discover_def failing_world_def glob_match_def)

lemma failing_world_db:
  "N8N_DB failing_world = ''/home/op/.n8n/database.sqlite''"
  "db_files failing_world ''/home/op/.n8n/database.sqlite'' = Some \<lparr>workflow = Some []\<rparr>"
  by (simp_all add: N8N_DB_def N8N_HOME_def failing_world_def)

lemma filter_partition_length:
  "length (filter (\<lambda>x. \<not> P x) xs) + length (filter P xs) = length xs"
  by (induction xs) auto

lemma import_workflow_to_db_result:
  "fst (import_workflow_to_db p v w) = (has_table p w \<and> importable (Inr v))"
  by (auto simp: run_defs has_table_def bindable_def Let_def
      split: prod.splits sum.splits option.splits json.splits if_splits)

lemma import_workflow_to_db_failure:
  "\<not> (has_table p w \<and> importable (Inr v)) \<Longrightarrow>
     db_files (snd (import_workflow_to_db p v w)) = db_files w"
  by (auto simp: run_defs has_table_def bindable_def Let_def
      split: prod.splits sum.splits option.splits json.splits if_splits)

lemma import_workflow_to_db_success:
  assumes "has_table p w" and "sqlite_bind (dict_get d ''name'' (JString ''Untitled Workflow'')) = Inr n"
  shows "workflow_rows p (snd (import_workflow_to_db p (JObject d) w)) =
           workflow_rows p w @
             [\<lparr>row_id = next_rowid (workflow_rows p w), row_name = n,
               row_nodes = json_dumps (dict_get d ''nodes'' (JArray [])),
               row_connections = json_dumps (dict_get d ''connections'' (JObject [])),
               row_active = (if truthy (dict_get d ''active'' (JBool False)) then 1 else 0),
               row_createdAt = clock w, row_updatedAt = clock w\<rparr>]"
  using assms
  by (auto simp: run_defs has_table_def workflow_rows_def Let_def
      split: prod.splits sum.splits option.splits json.splits if_splits)

lemma import_workflow_to_db_others:
  "q \<noteq> p \<Longrightarrow> db_files (snd (import_workflow_to_db p v w)) q = db_files w q"
  by (auto simp: run_defs Let_def
      split: prod.splits sum.splits option.splits json.splits if_splits)

lemma import_workflow_to_db_trace:
  "\<exists>ev. trace (snd (import_workflow_to_db p v w)) = trace w @ PathExists p # ev"
  by (auto simp: run_defs Let_def
      split: prod.splits sum.splits option.splits json.splits if_splits)

lemma not_truthy_iff:
  "(\<not> truthy a) = (a \<in> {JBool False, JInt 0, JNull, JString [], JArray [], JObject []})"
  by (cases a) auto

lemma json_dumps_empty: "json_dumps (JArray []) = ''[]''" "json_dumps (JObject []) = ''{}''"
  by simp_all

lemma import_workflow_to_db_non_object:
  assumes "\<not> is_object v"
  shows "trace (snd (import_workflow_to_db p v u)) = trace u @
           (if db_files u p = None
            then [PathExists p, Print (MsgDatabaseNotFound p), Print MsgMakeSureStarted]
            else [PathExists p, Connect p, Print (MsgErrorImporting AttributeError)])"
  using assms
  by (cases v) (auto simp: run_defs Let_def
      split: prod.splits sum.splits option.splits json.splits if_splits)

lemma has_table_exists: "has_table p w \<Longrightarrow> db_files w p \<noteq> None"
  by (auto simp: has_table_def split: option.splits)

lemma example_world_has_table:
  "has_table ''/home/op/.n8n/database.sqlite'' example_world"
  "workflow_rows ''/home/op/.n8n/database.sqlite'' example_world = []"
  by (simp_all add: has_table_def workflow_rows_def example_world_db)

lemma names_world_discover:
  "discover names_world =
     [(''a-workflow.json'', Inr (JObject example_object)),
      (''b-workflow.json'', Inr (JObject [(''name'', JString ''Test'')]))]"
  by (simp add: discover_def names_world_def glob_match_def)

lemma names_world_db:
  "N8N_DB names_world = ''/home/op/.n8n/database.sqlite''"
  "has_table ''/home/op/.n8n/database.sqlite'' names_world"
  "workflow_rows ''/home/op/.n8n/database.sqlite'' names_world = []"
  by (simp_all add: N8N_DB_def N8N_HOME_def names_world_def example_world_def has_table_def
      workflow_rows_def)

lemma wf_json_field:
  "wf_json (JObject d) \<Longrightarrow> map_of d k = Some v \<Longrightarrow> wf_json v"
  by (auto simp: list_all_iff dest!: map_of_SomeD)

lemma example_text:
  "json_dumps (JObject example_object) =
     ''{\"name\": \"Test\", \"nodes\": [], \"connections\": {}, \"active\": true}''"
  by (simp add: example_object_def dumps_string_def escape_char_def)

lemma example_text_loads:
  "json_loads ''{\"name\": \"Test\", \"nodes\": [], \"connections\": {}, \"active\": true}''
     = Some (JObject example_object)"
proof -
  have "wf_json (JObject example_object)" by (simp add: example_object_def)
  from json_loads_dumps [OF this] show ?thesis unfolding example_text .
qed

section \<open>The claims\<close>

text \<open>
  Claim C1. Take a run that discovers N files, at least one, against a database file that
  has the workflow table, where every file is either a well-formed workflow record or
  malformed (it does not load), and K of them are well-formed. Then the run appends
  exactly K rows to the workflow table, prints N - K per-file error messages, reports the
  count K in its closing line, and exits with status 0.
\<close>
theorem batch_import_counts:
  assumes "discover w \<noteq> []" and "has_table (N8N_DB w) w"
    and "\<forall>f \<in> set (discover w). well_formed (snd f) \<or> malformed (snd f)"
  shows "fst (main w) = 0 \<and>
         (\<exists>new. workflow_rows (N8N_DB w) (snd (main w)) = workflow_rows (N8N_DB w) w @ new \<and>
                length new = length (filter (\<lambda>f. well_formed (snd f)) (discover w))) \<and>
         length (filter is_error_message (run_events w)) =
           length (discover w) - length (filter (\<lambda>f. well_formed (snd f)) (discover w)) \<and>
         concat (map reported_count (run_events w)) =
           [length (filter (\<lambda>f. well_formed (snd f)) (discover w))]"
proof -
  let ?K = "length (filter (\<lambda>f. well_formed (snd f)) (discover w))"
  have eq: "filter (\<lambda>f. importable (snd f)) (discover w) = filter (\<lambda>f. well_formed (snd f)) (discover w)"
    using assms(3)
    by (intro filter_cong refl) (auto dest: well_formed_importable malformed_not_importable)
  from main_summary [OF assms(1) has_table_exists [OF assms(2)]] obtain c new ev where
    x: "fst (main w) = 0" and
    c: "c = (if has_table (N8N_DB w) w
                then length (filter (\<lambda>f. importable (snd f)) (discover w)) else 0)" and
    n: "workflow_rows (N8N_DB w) (snd (main w)) = workflow_rows (N8N_DB w) w @ new" "length new = c" and
    re: "run_events w = header w @ ev @ report c" and
    e: "length (filter is_error_message ev) + c = length (discover w)" and
    rp: "concat (map reported_count ev) = []" by blast
  from c assms(2) eq have cK: "c = ?K" by simp
  from re e have 3: "length (filter is_error_message (run_events w)) = length (discover w) - c"
    by (simp add: header_def report_def)
  from re rp have 4: "concat (map reported_count (run_events w)) = [c]"
    by (simp add: header_def report_def)
  from x n 3 4 show ?thesis unfolding cK by blast
qed

theorem batch_import_counts_witness:
  "discover example_world =
     [(''a-workflow.json'', Inr (JObject example_object)),
      (''b-workflow.json'', Inl JSONDecodeError)] \<and>
   well_formed (Inr (JObject example_object)) \<and> malformed (Inl JSONDecodeError) \<and>
   has_table (N8N_DB example_world) example_world \<and>
   fst (main example_world) = 0 \<and>
   length (workflow_rows (N8N_DB example_world) (snd (main example_world))) = 1 \<and>
   length (filter is_error_message (run_events example_world)) = 1 \<and>
   concat (map reported_count (run_events example_world)) = [1]"
proof -
  have h1: "discover example_world \<noteq> []" by (simp add: example_world_discover)
  have h2: "has_table (N8N_DB example_world) example_world"
    by (simp add: has_table_def example_world_db)
  have wf: "well_formed (Inr (JObject example_object))"
    by (simp add: example_object_def field_ok_def)
  have h3: "\<forall>f \<in> set (discover example_world). well_formed (snd f) \<or> malformed (snd f)"
    using wf by (simp add: example_world_discover)
  have k: "length (filter (\<lambda>f. well_formed (snd f)) (discover example_world)) = 1"
    using wf by (simp add: example_world_discover)
  have r: "workflow_rows (N8N_DB example_world) example_world = []"
    by (simp add: workflow_rows_def example_world_db)
  from batch_import_counts [OF h1 h2 h3] h2 wf show ?thesis
    unfolding k r by (auto simp: example_world_discover)
qed

text \<open>
  Claim C2. The exit status is 1 exactly when no workflow file is found or the database
  file does not exist when \<open>main\<close> starts, and it is 0 in every other run. In a run that
  exits with 1 the database files are left as they were, so no row is inserted; and when
  no file is found, the run does not touch the database at all: its events contain no
  existence check, connection, statement, commit or close.
\<close>
theorem exit_status_one_iff_fatal:
  "(fst (main w) = 1 \<longleftrightarrow> discover w = [] \<or> db_files w (N8N_DB w) = None) \<and>
   (fst (main w) \<noteq> 1 \<longrightarrow> fst (main w) = 0) \<and>
   (fst (main w) = 1 \<longrightarrow> db_files (snd (main w)) = db_files w) \<and>
   (discover w = [] \<longrightarrow> filter is_db_access (run_events w) = [])"
proof (cases "discover w = []")
  case True
  from main_no_files [OF True] show ?thesis by (simp add: True run_events_def)
next
  case files: False
  show ?thesis
  proof (cases "db_files w (N8N_DB w) = None")
    case True
    from main_no_database [OF files True] show ?thesis by (simp add: True files)
  next
    case False
    from main_pass_run [OF files False] show ?thesis using files False by auto
  qed
qed

theorem exit_status_one_iff_fatal_witness:
  "fst (main example_world) = 0 \<and> discover example_world \<noteq> [] \<and>
   db_files example_world (N8N_DB example_world) \<noteq> None \<and>
   fst (main (example_world\<lparr>workflows_dir := []\<rparr>)) = 1 \<and>
   filter is_db_access (run_events (example_world\<lparr>workflows_dir := []\<rparr>)) = [] \<and>
   fst (main (example_world\<lparr>db_files := Map.empty\<rparr>)) = 1 \<and>
   db_files (snd (main (example_world\<lparr>db_files := Map.empty\<rparr>))) = Map.empty"
proof -
  have h1: "discover example_world \<noteq> []" by (simp add: example_world_discover)
  have h2: "db_files example_world (N8N_DB example_world) \<noteq> None"
    by (simp add: example_world_db)
  have h3: "discover (example_world\<lparr>workflows_dir := []\<rparr>) = []"
    by (simp add: discover_def)
  have h4: "db_files (example_world\<lparr>db_files := Map.empty\<rparr>)
              (N8N_DB (example_world\<lparr>db_files := Map.empty\<rparr>)) = None"
    by simp
  from exit_status_one_iff_fatal [of example_world]
       exit_status_one_iff_fatal [of "example_world\<lparr>workflows_dir := []\<rparr>"]
       exit_status_one_iff_fatal [of "example_world\<lparr>db_files := Map.empty\<rparr>"]
       h1 h2 h3 h4
  show ?thesis by simp
qed

text \<open>
  Claim C3. Take a loaded object that has all four fields, with a text as name and a
  boolean as active, and import it into a database that has the workflow table. The
  import succeeds and appends one row: its name is the name of the file, unchanged;
  decoding the stored nodes text and the stored connections text with \<open>json_loads\<close> gives
  back the nodes and the connections of the file; and its active column is 1 when active
  is true and 0 when it is false.
\<close>
theorem stored_row_reflects_file:
  assumes "map_of d ''name'' = Some (JString nm)" and "map_of d ''nodes'' = Some ns"
    and "map_of d ''connections'' = Some cs" and "map_of d ''active'' = Some (JBool b)"
    and "wf_json (JObject d)" and "has_table p w"
  shows "\<exists>row. import_workflow_to_db p (JObject d) w =
                  (True, snd (import_workflow_to_db p (JObject d) w)) \<and>
           workflow_rows p (snd (import_workflow_to_db p (JObject d) w)) = workflow_rows p w @ [row] \<and>
           row_name row = SqlText nm \<and>
           json_loads (row_nodes row) = Some ns \<and>
           json_loads (row_connections row) = Some cs \<and>
           row_active row = (if b then 1 else 0)"
proof -
  let ?r = "import_workflow_to_db p (JObject d) w"
  from assms(1) have n: "sqlite_bind (dict_get d ''name'' (JString ''Untitled Workflow'')) = Inr (SqlText nm)"
    by (simp add: dict_get_def)
  then have imp: "importable (Inr (JObject d))" by (simp add: bindable_def)
  from import_workflow_to_db_result [of p "JObject d" w] assms(6) imp
  have ok: "?r = (True, snd ?r)" by (cases ?r) simp
  note rows = import_workflow_to_db_success [OF assms(6) n]
  from assms(2,3,5) have wf: "wf_json ns" "wf_json cs" by (blast dest: wf_json_field)+
  show ?thesis
    apply (rule exI, intro conjI)
         apply (rule ok)
        apply (rule rows)
    using assms(2,3,4) wf by (simp_all add: dict_get_def json_loads_dumps)
qed

theorem stored_row_reflects_file_witness:
  "map_of start_workflow ''name'' = Some (JString ''Product Photo Capture'') \<and>
   map_of start_workflow ''active'' = Some (JBool False) \<and>
   wf_json (JObject start_workflow) \<and>
   has_table ''/home/op/.n8n/database.sqlite'' example_world \<and>
   (\<exists>row. workflow_rows ''/home/op/.n8n/database.sqlite''
            (snd (import_workflow_to_db ''/home/op/.n8n/database.sqlite''
                    (JObject start_workflow) example_world)) = [row] \<and>
          row_name row = SqlText ''Product Photo Capture'' \<and>
          json_loads (row_nodes row) =
            Some (JArray [JObject [(''id'', JInt 1), (''type'', JString ''n8n-nodes-base.start''),
                        (''position'', JArray [JInt 250, JInt (- 300)]),
                        (''disabled'', JBool False), (''notes'', JNull)]]) \<and>
          json_loads (row_connections row) =
            Some (JObject [(''Start'', JObject [(''main'', JArray [JArray []])])]) \<and>
          row_active row = 0)"
proof -
  have h1: "map_of start_workflow ''name'' = Some (JString ''Product Photo Capture'')"
    by (simp add: start_workflow_def)
  have h2: "map_of start_workflow ''nodes'' =
      Some (JArray [JObject [(''id'', JInt 1), (''type'', JString ''n8n-nodes-base.start''),
                        (''position'', JArray [JInt 250, JInt (- 300)]),
                        (''disabled'', JBool False), (''notes'', JNull)]])"
    by (simp add: start_workflow_def)
  have h3: "map_of start_workflow ''connections'' =
      Some (JObject [(''Start'', JObject [(''main'', JArray [JArray []])])])"
    by (simp add: start_workflow_def)
  have h4: "map_of start_workflow ''active'' = Some (JBool False)"
    by (simp add: start_workflow_def)
  have h5: "wf_json (JObject start_workflow)" by (simp add: start_workflow_def)
  note h6 = example_world_has_table(1)
  from stored_row_reflects_file [OF h1 h2 h3 h4 h5 h6] h1 h4 h5 h6 show ?thesis
    by (auto simp: example_world_has_table)
qed

text \<open>
  Claim C4. Importing a well-formed record into a database that has the workflow table
  succeeds and appends one row, and that row holds a default for exactly the fields the
  file leaves out: an absent name is stored as the placeholder \<^verbatim>\<open>Untitled Workflow\<close>, absent
  nodes as the text \<^verbatim>\<open>[]\<close>, absent connections as the text \<^verbatim>\<open>{}\<close>, and an absent active flag
  as 0; a field that is present is stored from the file.
\<close>
theorem absent_fields_take_defaults:
  assumes "well_formed (Inr (JObject d))" and "has_table p w"
  shows "\<exists>row. import_workflow_to_db p (JObject d) w = (True, snd (import_workflow_to_db p (JObject d) w)) \<and>
           workflow_rows p (snd (import_workflow_to_db p (JObject d) w)) = workflow_rows p w @ [row] \<and>
           (map_of d ''name'' = None \<longrightarrow> row_name row = SqlText ''Untitled Workflow'') \<and>
           (\<forall>s. map_of d ''name'' = Some (JString s) \<longrightarrow> row_name row = SqlText s) \<and>
           (map_of d ''nodes'' = None \<longrightarrow> row_nodes row = ''[]'') \<and>
           (\<forall>v. map_of d ''nodes'' = Some v \<longrightarrow> row_nodes row = json_dumps v) \<and>
           (map_of d ''connections'' = None \<longrightarrow> row_connections row = ''{}'') \<and>
           (\<forall>v. map_of d ''connections'' = Some v \<longrightarrow> row_connections row = json_dumps v) \<and>
           (map_of d ''active'' = None \<longrightarrow> row_active row = 0) \<and>
           (\<forall>b. map_of d ''active'' = Some (JBool b) \<longrightarrow> row_active row = (if b then 1 else 0))"
proof -
  let ?r = "import_workflow_to_db p (JObject d) w"
  from assms(1) have imp: "importable (Inr (JObject d))" by (rule well_formed_importable)
  then obtain n where n: "sqlite_bind (dict_get d ''name'' (JString ''Untitled Workflow'')) = Inr n"
    by (auto simp: bindable_def split: sum.splits)
  from import_workflow_to_db_result [of p "JObject d" w] assms(2) imp
  have ok: "?r = (True, snd ?r)" by (cases ?r) simp
  note rows = import_workflow_to_db_success [OF assms(2) n]
  from n have nm: "map_of d ''name'' = None \<longrightarrow> n = SqlText ''Untitled Workflow''"
    "\<forall>s. map_of d ''name'' = Some (JString s) \<longrightarrow> n = SqlText s"
    by (auto simp: dict_get_def)
  show ?thesis
    apply (rule exI, intro conjI)
             apply (rule ok)
            apply (rule rows)
    using nm by (simp_all add: dict_get_def)
qed

theorem absent_fields_take_defaults_witness:
  "well_formed (Inr (JObject [(''name'', JString ''Only a name'')])) \<and>
   has_table ''/home/op/.n8n/database.sqlite'' example_world \<and>
   (\<exists>row. workflow_rows ''/home/op/.n8n/database.sqlite''
            (snd (import_workflow_to_db ''/home/op/.n8n/database.sqlite''
                    (JObject [(''name'', JString ''Only a name'')]) example_world)) = [row] \<and>
          row_name row = SqlText ''Only a name'' \<and> row_nodes row = ''[]'' \<and>
          row_connections row = ''{}'' \<and> row_active row = 0)"
proof -
  have h1: "well_formed (Inr (JObject [(''name'', JString ''Only a name'')]))"
    by (simp add: field_ok_def)
  note h2 = example_world_has_table(1)
  from absent_fields_take_defaults [OF h1 h2] h1 h2 show ?thesis
    by (auto simp: example_world_has_table)
qed

text \<open>
  Claim C5. In a run that passes both fatal checks, a failure on a file (the file does not
  load, or its insertion fails) stays with that file: the exit status is 0 whatever the
  files do, every discovered file is opened, in order, whether or not files before it
  failed, and every file that is not imported is answered by exactly one error message.
  So a run in which every file fails still exits with 0.
\<close>
theorem per_file_failure_is_contained:
  assumes "discover w \<noteq> []" and "db_files w (N8N_DB w) \<noteq> None"
  shows "fst (main w) = 0 \<and>
         opened_files (run_events w) = map fst (discover w) \<and>
         length (filter is_error_message (run_events w)) =
           length (filter (\<lambda>f. \<not> (has_table (N8N_DB w) w \<and> importable (snd f))) (discover w))"
proof -
  let ?ok = "\<lambda>f. has_table (N8N_DB w) w \<and> importable (snd f)"
  from main_summary [OF assms] obtain c ev where
    x: "fst (main w) = 0" and
    c: "c = (if has_table (N8N_DB w) w
                then length (filter (\<lambda>f. importable (snd f)) (discover w)) else 0)" and
    re: "run_events w = header w @ ev @ report c" and
    o: "opened_files ev = map fst (discover w)" and
    e: "length (filter is_error_message ev) + c = length (discover w)" by blast
  from c have c': "c = length (filter ?ok (discover w))" by simp
  from re o have 1: "opened_files (run_events w) = map fst (discover w)"
    by (simp add: opened_files_def header_def report_def)
  from re have "length (filter is_error_message (run_events w)) = length (filter is_error_message ev)"
    by (simp add: header_def report_def)
  with e c' filter_partition_length [of ?ok "discover w"]
  have 2: "length (filter is_error_message (run_events w)) =
           length (filter (\<lambda>f. \<not> ?ok f) (discover w))" by simp
  from x 1 2 show ?thesis by blast
qed

theorem per_file_failure_is_contained_witness:
  "discover failing_world \<noteq> [] \<and> db_files failing_world (N8N_DB failing_world) \<noteq> None \<and>
   fst (main failing_world) = 0 \<and>
   opened_files (run_events failing_world) =
     [''a-workflow.json'', ''b-workflow.json'', ''c-workflow.json''] \<and>
   length (filter is_error_message (run_events failing_world)) = 3"
proof -
  have h1: "discover failing_world \<noteq> []" by (simp add: failing_world_discover)
  have h2: "db_files failing_world (N8N_DB failing_world) \<noteq> None" by (simp add: failing_world_db)
  from per_file_failure_is_contained [OF h1 h2] h1 h2 show ?thesis
    by (simp add: failing_world_discover bindable_def dict_get_def)
qed

text \<open>
  Claim C6, as the specification states it, says that the existence of the database file
  is checked once only. The script checks it again at the start of every call of
  \<^verbatim>\<open>import_workflow_to_db\<close>: in the example run the check is made before the first file is
  opened and once more between opening that file and committing its row.
\<close>
theorem database_check_repeated_counterexample:
  "filter (\<lambda>e. is_exists_check e \<or> is_step e) (run_events example_world) =
     [PathExists ''/home/op/.n8n/database.sqlite'',
      OpenFile ''a-workflow.json'',
      PathExists ''/home/op/.n8n/database.sqlite'',
      Commit ''/home/op/.n8n/database.sqlite'',
      OpenFile ''b-workflow.json''] \<and>
   length (filter is_exists_check (run_events example_world)) \<noteq> 1"
  by (simp add: run_events_def main_def discover_def example_world_def glob_match_def Let_def
      print_all_def N8N_DB_def N8N_HOME_def run_defs example_object_def dict_get_def
      next_rowid_def)

text \<open>
  Claim C6, amended. \<open>main\<close> checks that the database file exists once, after its first
  four lines of output and before any file is opened, and \<^verbatim>\<open>import_workflow_to_db\<close> checks
  it again as the first thing it does in every call. So a run makes no check when no file
  is found, one check when the database file is missing, and one check more than the
  number of files that load otherwise.
\<close>
theorem database_checked_once_per_insertion_too:
  "length (filter is_exists_check (run_events w)) =
     (if discover w = [] then 0
      else if db_files w (N8N_DB w) = None then 1
      else 1 + length (filter (\<lambda>f. loadable (snd f)) (discover w))) \<and>
   (discover w \<noteq> [] \<longrightarrow>
      take 5 (run_events w) =
        [Print MsgRule, Print MsgTitle, Print MsgRule, Print (MsgFound (length (discover w))),
         PathExists (N8N_DB w)]) \<and>
   take 1 (drop (length (trace u)) (trace (snd (import_workflow_to_db p v u)))) = [PathExists p]"
proof -
  have 3: "take 1 (drop (length (trace u)) (trace (snd (import_workflow_to_db p v u)))) = [PathExists p]"
    using import_workflow_to_db_trace [of p v u] by auto
  show ?thesis
  proof (cases "discover w = []")
    case True
    from main_no_files [OF True] 3 show ?thesis by (simp add: True run_events_def)
  next
    case files: False
    show ?thesis
    proof (cases "db_files w (N8N_DB w) = None")
      case True
      from main_no_database [OF files True] 3 show ?thesis
        by (simp add: True files run_events_def)
    next
      case False
      from main_summary [OF files False] obtain c ev where
        re: "run_events w = header w @ ev @ report c" and
        x: "length (filter is_exists_check ev) =
             length (filter (\<lambda>f. loadable (snd f)) (discover w))" by blast
      from re x 3 show ?thesis using files False by (auto simp: header_def report_def)
    qed
  qed
qed

theorem database_checked_once_per_insertion_too_witness:
  "discover example_world \<noteq> [] \<and>
   length (filter is_exists_check (run_events example_world)) = 2 \<and>
   take 5 (run_events example_world) =
        [Print MsgRule, Print MsgTitle, Print MsgRule, Print (MsgFound 2),
         PathExists ''/home/op/.n8n/database.sqlite'']"
proof -
  have h1: "discover example_world \<noteq> []" by (simp add: example_world_discover)
  from database_checked_once_per_insertion_too [of example_world] h1 show ?thesis
    by (simp add: example_world_discover example_world_db)
qed

text \<open>
  Claim C7. The files are processed in ascending lexicographic order of their file names:
  the files opened are the names of the directory that match the pattern, each as often as
  it is listed, in sorted order; and each file is loaded and, when its import succeeds,
  committed before the next file is opened.
\<close>
theorem files_processed_in_filename_order:
  assumes "discover w \<noteq> []" and "db_files w (N8N_DB w) \<noteq> None"
  shows "opened_files (run_events w) = map fst (discover w) \<and>
         sorted (opened_files (run_events w)) \<and>
         mset (opened_files (run_events w)) =
           mset (filter glob_match (map fst (workflows_dir w))) \<and>
         filter is_step (run_events w) =
           concat (map (\<lambda>f. OpenFile (fst f) #
              (if has_table (N8N_DB w) w \<and> importable (snd f) then [Commit (N8N_DB w)] else []))
              (discover w))"
proof -
  from main_summary [OF assms] obtain c ev where
    re: "run_events w = header w @ ev @ report c" and
    o: "opened_files ev = map fst (discover w)" and
    s: "filter is_step ev =
             concat (map (\<lambda>f. OpenFile (fst f) #
                (if has_table (N8N_DB w) w \<and> importable (snd f) then [Commit (N8N_DB w)] else []))
                (discover w))" by blast
  from re o have 1: "opened_files (run_events w) = map fst (discover w)"
    by (simp add: opened_files_def header_def report_def)
  have 2: "sorted (map fst (discover w))"
    unfolding discover_def by (rule sorted_sort_key)
  have 3: "mset (map fst (discover w)) = mset (filter glob_match (map fst (workflows_dir w)))"
    by (simp add: discover_def filter_map comp_def)
  from re s have 4: "filter is_step (run_events w) =
           concat (map (\<lambda>f. OpenFile (fst f) #
              (if has_table (N8N_DB w) w \<and> importable (snd f) then [Commit (N8N_DB w)] else []))
              (discover w))"
    by (simp add: header_def report_def)
  from 1 2 3 4 show ?thesis by simp
qed

theorem files_processed_in_filename_order_witness:
  "discover example_world \<noteq> [] \<and> db_files example_world (N8N_DB example_world) \<noteq> None \<and>
   map fst (workflows_dir example_world) = [''b-workflow.json'', ''notes.txt'', ''a-workflow.json''] \<and>
   opened_files (run_events example_world) = [''a-workflow.json'', ''b-workflow.json''] \<and>
   filter is_step (run_events example_world) =
     [OpenFile ''a-workflow.json'', Commit ''/home/op/.n8n/database.sqlite'',
      OpenFile ''b-workflow.json'']"
proof -
  have h1: "discover example_world \<noteq> []" by (simp add: example_world_discover)
  have h2: "db_files example_world (N8N_DB example_world) \<noteq> None" by (simp add: example_world_db)
  have h3: "map fst (workflows_dir example_world) = [''b-workflow.json'', ''notes.txt'', ''a-workflow.json'']"
    by (simp add: example_world_def)
  from files_processed_in_filename_order [OF h1 h2] h1 h2 h3 show ?thesis
    by (simp add: example_world_discover example_world_db has_table_def bindable_def
        dict_get_def example_object_def)
qed

text \<open>
  Claim C8. Importing only adds rows. Whatever the database held before, a call of
  \<^verbatim>\<open>import_workflow_to_db\<close> that succeeds leaves the rows of the workflow table as they were
  and appends exactly one row, whatever names are stored already. Hence running the
  importer twice over the same N well-formed files appends N rows the first time and N
  more rows the second time.
\<close>
theorem import_is_additive:
  assumes "discover w \<noteq> []" and "has_table (N8N_DB w) w"
    and "\<forall>f \<in> set (discover w). well_formed (snd f)"
  shows "(\<forall>p v u. fst (import_workflow_to_db p v u) \<longrightarrow>
            (\<exists>row. workflow_rows p (snd (import_workflow_to_db p v u)) = workflow_rows p u @ [row])) \<and>
         (\<exists>new1 new2.
            workflow_rows (N8N_DB w) (snd (main w)) = workflow_rows (N8N_DB w) w @ new1 \<and>
            length new1 = length (discover w) \<and>
            workflow_rows (N8N_DB w) (snd (main (snd (main w)))) =
              workflow_rows (N8N_DB w) w @ new1 @ new2 \<and>
            length new2 = length (discover w))"
proof -
  have 1: "\<forall>p v u. fst (import_workflow_to_db p v u) \<longrightarrow>
            (\<exists>row. workflow_rows p (snd (import_workflow_to_db p v u)) = workflow_rows p u @ [row])"
  proof (intro allI impI)
    fix p v u
    assume "fst (import_workflow_to_db p v u)"
    then have ok: "has_table p u" "importable (Inr v)"
      by (simp_all add: import_workflow_to_db_result)
    from ok(2) obtain d n where v: "v = JObject d"
      and n: "sqlite_bind (dict_get d ''name'' (JString ''Untitled Workflow'')) = Inr n"
      by (cases v) (auto simp: bindable_def split: sum.splits)
    from import_workflow_to_db_success [OF ok(1) n]
    show "\<exists>row. workflow_rows p (snd (import_workflow_to_db p v u)) = workflow_rows p u @ [row]"
      unfolding v by blast
  qed
  let ?p = "N8N_DB w" and ?w1 = "snd (main w)"
  have all: "filter (\<lambda>f. importable (snd f)) (discover w) = discover w"
    using assms(3) by (simp add: filter_id_conv well_formed_importable)
  from main_summary [OF assms(1) has_table_exists [OF assms(2)]] obtain c new1 where
    c: "c = (if has_table ?p w
                then length (filter (\<lambda>f. importable (snd f)) (discover w)) else 0)" and
    n1: "workflow_rows ?p ?w1 = workflow_rows ?p w @ new1" "length new1 = c" and
    f: "home ?w1 = home w" "workflows_dir ?w1 = workflows_dir w"
       "has_table ?p ?w1 = has_table ?p w" by blast
  from f have same: "N8N_DB ?w1 = ?p" "discover ?w1 = discover w"
    by (simp_all add: N8N_DB_def N8N_HOME_def discover_def)
  from same assms(1) have files1: "discover ?w1 \<noteq> []" by simp
  from same f assms(2) have table1: "has_table (N8N_DB ?w1) ?w1" by simp
  from main_summary [OF files1 has_table_exists [OF table1]] obtain c2 new2 where
    c2: "c2 = (if has_table (N8N_DB ?w1) ?w1
                then length (filter (\<lambda>f. importable (snd f)) (discover ?w1)) else 0)" and
    n2: "workflow_rows (N8N_DB ?w1) (snd (main ?w1)) = workflow_rows (N8N_DB ?w1) ?w1 @ new2"
        "length new2 = c2" by blast
  from c assms(2) all have cN: "c = length (discover w)" by simp
  from c2 table1 same all have c2N: "c2 = length (discover w)" by simp
  from n2 same n1 have r2: "workflow_rows ?p (snd (main ?w1)) = workflow_rows ?p w @ new1 @ new2"
    by simp
  from n1 cN r2 n2(2) c2N have 2: "\<exists>new1 new2.
            workflow_rows ?p ?w1 = workflow_rows ?p w @ new1 \<and>
            length new1 = length (discover w) \<and>
            workflow_rows ?p (snd (main ?w1)) = workflow_rows ?p w @ new1 @ new2 \<and>
            length new2 = length (discover w)" by blast
  from 1 2 show ?thesis by blast
qed

theorem import_is_additive_witness:
  "discover names_world =
     [(''a-workflow.json'', Inr (JObject example_object)),
      (''b-workflow.json'', Inr (JObject [(''name'', JString ''Test'')]))] \<and>
   well_formed (Inr (JObject example_object)) \<and>
   well_formed (Inr (JObject [(''name'', JString ''Test'')])) \<and>
   has_table (N8N_DB names_world) names_world \<and>
   length (workflow_rows (N8N_DB names_world) (snd (main names_world))) = 2 \<and>
   length (workflow_rows (N8N_DB names_world) (snd (main (snd (main names_world))))) = 4"
proof -
  have h1: "discover names_world \<noteq> []" by (simp add: names_world_discover)
  have h2: "has_table (N8N_DB names_world) names_world" by (simp add: names_world_db)
  have wf: "well_formed (Inr (JObject example_object))"
    "well_formed (Inr (JObject [(''name'', JString ''Test'')]))"
    by (simp_all add: example_object_def field_ok_def)
  have h3: "\<forall>f \<in> set (discover names_world). well_formed (snd f)"
    using wf by (simp add: names_world_discover)
  from import_is_additive [OF h1 h2 h3] h2 wf show ?thesis
    by (auto simp: names_world_discover names_world_db)
qed

text \<open>
  Claim C9. A file that holds valid JSON whose top-level value is not an object is not
  imported: the call of \<^verbatim>\<open>import_workflow_to_db\<close> returns False, leaves every database file
  unchanged, and prints exactly one error message, that of its own handler for the
  AttributeError when the database file exists. In a run that passes both checks such
  a file does not stop the batch: every discovered file is opened, fewer rows are
  appended than files were discovered, and the exit status is 0.
\<close>
theorem non_object_file_is_reported_and_skipped:
  assumes "\<not> is_object v"
  shows "\<not> fst (import_workflow_to_db p v u) \<and>
         db_files (snd (import_workflow_to_db p v u)) = db_files u \<and>
         (db_files u p \<noteq> None \<longrightarrow>
            drop (length (trace u)) (trace (snd (import_workflow_to_db p v u))) =
              [PathExists p, Connect p, Print (MsgErrorImporting AttributeError)]) \<and>
         length (filter is_error_message
            (drop (length (trace u)) (trace (snd (import_workflow_to_db p v u))))) = 1 \<and>
         (discover w \<noteq> [] \<and> db_files w (N8N_DB w) \<noteq> None \<and> (n, Inr v) \<in> set (discover w) \<longrightarrow>
            fst (main w) = 0 \<and>
            opened_files (run_events w) = map fst (discover w) \<and>
            (\<exists>new. workflow_rows (N8N_DB w) (snd (main w)) = workflow_rows (N8N_DB w) w @ new \<and>
                   length new < length (discover w)))"
proof -
  from assms have ni: "\<not> importable (Inr v)" by (cases v) auto
  have 1: "\<not> fst (import_workflow_to_db p v u)"
    using ni by (simp add: import_workflow_to_db_result)
  have 2: "db_files (snd (import_workflow_to_db p v u)) = db_files u"
    using ni by (simp add: import_workflow_to_db_failure)
  note t = import_workflow_to_db_non_object [OF assms, of p u]
  have 3: "db_files u p \<noteq> None \<longrightarrow>
            drop (length (trace u)) (trace (snd (import_workflow_to_db p v u))) =
              [PathExists p, Connect p, Print (MsgErrorImporting AttributeError)]"
    using t by simp
  have 4: "length (filter is_error_message
            (drop (length (trace u)) (trace (snd (import_workflow_to_db p v u))))) = 1"
    using t by simp
  have 5: "discover w \<noteq> [] \<and> db_files w (N8N_DB w) \<noteq> None \<and> (n, Inr v) \<in> set (discover w) \<longrightarrow>
            fst (main w) = 0 \<and>
            opened_files (run_events w) = map fst (discover w) \<and>
            (\<exists>new. workflow_rows (N8N_DB w) (snd (main w)) = workflow_rows (N8N_DB w) w @ new \<and>
                   length new < length (discover w))"
  proof (intro impI, elim conjE)
    assume files: "discover w \<noteq> []" and db: "db_files w (N8N_DB w) \<noteq> None"
      and mem: "(n, Inr v) \<in> set (discover w)"
    from main_summary [OF files db] obtain c new ev where
      x: "fst (main w) = 0" and
      c: "c = (if has_table (N8N_DB w) w
                then length (filter (\<lambda>f. importable (snd f)) (discover w)) else 0)" and
      nw: "workflow_rows (N8N_DB w) (snd (main w)) = workflow_rows (N8N_DB w) w @ new"
          "length new = c" and
      re: "run_events w = header w @ ev @ report c" and
      o: "opened_files ev = map fst (discover w)" by blast
    from mem ni have "length (filter (\<lambda>f. importable (snd f)) (discover w)) < length (discover w)"
      by (intro length_filter_less [of "(n, Inr v)"]) auto
    with c files have lt: "c < length (discover w)" by auto
    from re o have op: "opened_files (run_events w) = map fst (discover w)"
      by (simp add: opened_files_def header_def report_def)
    from x op nw lt show "fst (main w) = 0 \<and>
            opened_files (run_events w) = map fst (discover w) \<and>
            (\<exists>new. workflow_rows (N8N_DB w) (snd (main w)) = workflow_rows (N8N_DB w) w @ new \<and>
                   length new < length (discover w))" by blast
  qed
  from 1 2 3 4 5 show ?thesis by blast
qed

theorem non_object_file_is_reported_and_skipped_witness:
  "\<not> is_object (JArray [JObject example_object]) \<and>
   discover failing_world \<noteq> [] \<and> db_files failing_world (N8N_DB failing_world) \<noteq> None \<and>
   (''b-workflow.json'', Inr (JArray [JObject example_object])) \<in> set (discover failing_world) \<and>
   fst (main failing_world) = 0 \<and>
   opened_files (run_events failing_world) =
     [''a-workflow.json'', ''b-workflow.json'', ''c-workflow.json''] \<and>
   \<not> fst (import_workflow_to_db (N8N_DB failing_world) (JArray [JObject example_object])
            failing_world) \<and>
   trace (snd (import_workflow_to_db (N8N_DB failing_world) (JArray [JObject example_object])
            failing_world)) =
     [PathExists ''/home/op/.n8n/database.sqlite'', Connect ''/home/op/.n8n/database.sqlite'',
      Print (MsgErrorImporting AttributeError)]"
proof -
  have h0: "\<not> is_object (JArray [JObject example_object])" by simp
  have h1: "discover failing_world \<noteq> []" by (simp add: failing_world_discover)
  have h2: "db_files failing_world (N8N_DB failing_world) \<noteq> None" by (simp add: failing_world_db)
  have h3: "(''b-workflow.json'', Inr (JArray [JObject example_object])) \<in> set (discover failing_world)"
    by (simp add: failing_world_discover)
  have t: "trace failing_world = []" by (simp add: failing_world_def)
  from non_object_file_is_reported_and_skipped [OF h0, of "N8N_DB failing_world" failing_world
         failing_world "''b-workflow.json''"] h0 h1 h2 h3 t
  show ?thesis by (simp add: failing_world_discover failing_world_db)
qed

text \<open>
  Claim C10. When the active field is present, whatever JSON value it holds, that value
  never decides whether the import succeeds: the import of the object succeeds exactly
  when the database has the workflow table and the name can be bound, and no error is
  raised for a value that is not a boolean. When it succeeds, the row stores 1 in the
  active column when the value is true in the sense of Python and 0 when it is not; the
  values stored as 0 are exactly false, 0, null, the empty string, the empty array and
  the empty object.
\<close>
theorem active_stored_by_truth_value:
  assumes "map_of d ''active'' = Some a"
  shows "fst (import_workflow_to_db p (JObject d) w) =
           (has_table p w \<and> bindable (dict_get d ''name'' (JString ''Untitled Workflow''))) \<and>
         (has_table p w \<and> bindable (dict_get d ''name'' (JString ''Untitled Workflow'')) \<longrightarrow>
           (\<exists>row. workflow_rows p (snd (import_workflow_to_db p (JObject d) w)) =
                    workflow_rows p w @ [row] \<and>
                  row_active row = (if truthy a then 1 else 0) \<and>
                  (row_active row = 0 \<longleftrightarrow>
                     a \<in> {JBool False, JInt 0, JNull, JString [], JArray [], JObject []})))"
proof (intro conjI impI)
  show "fst (import_workflow_to_db p (JObject d) w) =
           (has_table p w \<and> bindable (dict_get d ''name'' (JString ''Untitled Workflow'')))"
    by (simp add: import_workflow_to_db_result)
next
  assume ok: "has_table p w \<and> bindable (dict_get d ''name'' (JString ''Untitled Workflow''))"
  then obtain n where n: "sqlite_bind (dict_get d ''name'' (JString ''Untitled Workflow'')) = Inr n"
    by (auto simp: bindable_def split: sum.splits)
  from ok have t: "has_table p w" by simp
  note rows = import_workflow_to_db_success [OF t n]
  show "\<exists>row. workflow_rows p (snd (import_workflow_to_db p (JObject d) w)) =
                    workflow_rows p w @ [row] \<and>
                  row_active row = (if truthy a then 1 else 0) \<and>
                  (row_active row = 0 \<longleftrightarrow>
                     a \<in> {JBool False, JInt 0, JNull, JString [], JArray [], JObject []})"
    apply (rule exI, intro conjI)
      apply (rule rows)
    using assms not_truthy_iff [of a] by (auto simp: dict_get_def)
qed

theorem active_stored_by_truth_value_witness:
  "map_of [(''active'', JString ''no'')] ''active'' = Some (JString ''no'') \<and>
   has_table ''/home/op/.n8n/database.sqlite'' example_world \<and>
   bindable (dict_get [(''active'', JString ''no'')] ''name'' (JString ''Untitled Workflow'')) \<and>
   fst (import_workflow_to_db ''/home/op/.n8n/database.sqlite''
          (JObject [(''active'', JString ''no'')]) example_world) \<and>
   (\<exists>row. workflow_rows ''/home/op/.n8n/database.sqlite''
            (snd (import_workflow_to_db ''/home/op/.n8n/database.sqlite''
                    (JObject [(''active'', JString ''no'')]) example_world)) = [row] \<and>
          row_active row = 1)"
proof -
  have h1: "map_of [(''active'', JString ''no'')] ''active'' = Some (JString ''no'')" by simp
  note h2 = example_world_has_table(1)
  have h3: "bindable (dict_get [(''active'', JString ''no'')] ''name'' (JString ''Untitled Workflow''))"
    by (simp add: bindable_def dict_get_def)
  from active_stored_by_truth_value [OF h1, of "''/home/op/.n8n/database.sqlite''" example_world]
    h1 h2 h3 show ?thesis
    by (auto simp: example_world_has_table)
qed

end
